theory Spec2Isabelle
  imports Complex_Main
begin

section \<open>JavaScript strings\<close>

text \<open>
  A JavaScript string is a sequence of UTF-16 code units. The model takes strings whose
  code units are below 256 (Latin-1), one \<^typ>\<open>char\<close> per code unit, so that
  \<^term>\<open>length\<close> is \<^verbatim>\<open>.length\<close> and \<^term>\<open>take\<close> is
  \<^verbatim>\<open>.substring(0, n)\<close>.
\<close>

definition code_unit :: "char \<Rightarrow> nat" where
  "code_unit c = of_char c"

definition newline :: char where
  "newline = CHR 0x0A"

text \<open>
  \<^verbatim>\<open>String.prototype.toLowerCase\<close> on Latin-1: A-Z and the accented capitals
  U+00C0 to U+00DE (the multiplication sign U+00D7 apart) move up by 32.
\<close>

definition lower_char :: "char \<Rightarrow> char" where
  "lower_char c =
     (let n = code_unit c
      in if (65 \<le> n \<and> n \<le> 90) \<or> (192 \<le> n \<and> n \<le> 222 \<and> n \<noteq> 215)
         then char_of (n + 32) else c)"

definition toLowerCase :: "string \<Rightarrow> string" where
  "toLowerCase s = map lower_char s"

text \<open>The class \<^verbatim>\<open>\s\<close> of a regular expression, below 256.\<close>

definition is_space :: "char \<Rightarrow> bool" where
  "is_space c = (code_unit c \<in> {9, 10, 11, 12, 13, 32, 160})"

text \<open>The class \<^verbatim>\<open>\d\<close>.\<close>

definition is_digit :: "char \<Rightarrow> bool" where
  "is_digit c = (48 \<le> code_unit c \<and> code_unit c \<le> 57)"

text \<open>The class \<^verbatim>\<open>[A-Z]\<close> under the flag \<^verbatim>\<open>i\<close>: both cases of the ASCII letters.\<close>

definition is_letter :: "char \<Rightarrow> bool" where
  "is_letter c = ((65 \<le> code_unit c \<and> code_unit c \<le> 90) \<or> (97 \<le> code_unit c \<and> code_unit c \<le> 122))"

text \<open>
  \<^verbatim>\<open>s.split(/\s+/)\<close>: the pieces between maximal runs of white space. A string that
  starts or ends with white space yields an empty first or last piece, and the empty
  string yields one empty piece.
\<close>

function split_ws :: "string \<Rightarrow> string list" where
  "split_ws s =
     (case dropWhile (\<lambda>c. \<not> is_space c) s of
        [] \<Rightarrow> [s]
      | _ # rest \<Rightarrow> takeWhile (\<lambda>c. \<not> is_space c) s # split_ws (dropWhile is_space rest))"
  by pat_completeness auto
termination
proof (relation "measure length")
  show "wf (measure length)" by simp
next
  fix s :: string and sp rest
  assume cut: "dropWhile (\<lambda>c. \<not> is_space c) s = sp # rest"
  have "length (dropWhile is_space rest) \<le> length rest"
    by (rule length_dropWhile_le)
  moreover have "length (sp # rest) \<le> length s"
    using cut length_dropWhile_le [of "\<lambda>c. \<not> is_space c" s] by simp
  ultimately show "(dropWhile is_space rest, s) \<in> measure length" by simp
qed

declare split_ws.simps [simp del]

text \<open>\<^verbatim>\<open>s.split(sep)\<close> for a separator of one character.\<close>

function split_char :: "char \<Rightarrow> string \<Rightarrow> string list" where
  "split_char sep s =
     (case dropWhile (\<lambda>c. c \<noteq> sep) s of
        [] \<Rightarrow> [s]
      | _ # rest \<Rightarrow> takeWhile (\<lambda>c. c \<noteq> sep) s # split_char sep rest)"
  by pat_completeness auto
termination
proof (relation "measure (\<lambda>(sep, s). length s)")
  show "wf (measure (\<lambda>(sep, s). length s))" by simp
next
  fix sep :: char and s :: string and c rest
  assume cut: "dropWhile (\<lambda>c. c \<noteq> sep) s = c # rest"
  have "length (c # rest) \<le> length s"
    using cut length_dropWhile_le [of "\<lambda>c. c \<noteq> sep" s] by simp
  then show "((sep, rest), (sep, s)) \<in> measure (\<lambda>(sep, s). length s)" by simp
qed

declare split_char.simps [simp del]

text \<open>\<^verbatim>\<open>xs.join(sep)\<close>.\<close>

fun join :: "string \<Rightarrow> string list \<Rightarrow> string" where
  "join sep [] = []"
| "join sep [x] = x"
| "join sep (x # y # ys) = x @ sep @ join sep (y # ys)"

text \<open>\<^verbatim>\<open>s.startsWith(w)\<close> and \<^verbatim>\<open>s.includes(w)\<close>.\<close>

fun startsWith :: "string \<Rightarrow> string \<Rightarrow> bool" where
  "startsWith s [] = True"
| "startsWith [] (p # ps) = False"
| "startsWith (c # cs) (p # ps) = (c = p \<and> startsWith cs ps)"

fun includes_str :: "string \<Rightarrow> string \<Rightarrow> bool" where
  "includes_str [] w = (w = [])"
| "includes_str (c # cs) w = (startsWith (c # cs) w \<or> includes_str cs w)"

section \<open>The relevance extractor\<close>

text \<open>
  The test \<^verbatim>\<open>/section\s+\d+|[A-Z]\.\d+/i.test(line)\<close>. \<open>marker_here\<close> says that the
  expression matches at the start of the string, \<open>section_marker\<close> that it matches somewhere.
  Under the flag \<^verbatim>\<open>i\<close> a letter of the pattern matches both of its ASCII cases and no
  other code unit, which is what comparing the lower-cased text does.
\<close>

definition marker_here :: "string \<Rightarrow> bool" where
  "marker_here s =
     ((toLowerCase (take 7 s) = ''section'' \<and>
        (case drop 7 s of
           [] \<Rightarrow> False
         | c # cs \<Rightarrow> is_space c \<and>
             (case dropWhile is_space cs of [] \<Rightarrow> False | d # _ \<Rightarrow> is_digit d)))
      \<or> (case s of a # b # c # _ \<Rightarrow> is_letter a \<and> b = CHR ''.'' \<and> is_digit c | _ \<Rightarrow> False))"

fun section_marker :: "string \<Rightarrow> bool" where
  "section_marker [] = marker_here []"
| "section_marker (c # cs) = (marker_here (c # cs) \<or> section_marker cs)"

text \<open>The score of one line: 10 for each query word it contains, 5 for a section marker.\<close>

definition line_score :: "string list \<Rightarrow> string \<Rightarrow> nat" where
  "line_score queryWords line =
     (let lowerLine = toLowerCase line;
          score = fold (\<lambda>word score. if includes_str lowerLine word then score + 10 else score)
                    queryWords 0
      in if section_marker line then score + 5 else score)"

text \<open>
  \<^verbatim>\<open>Set.prototype.add\<close> on a set kept in insertion order, and the window of ten lines on
  each side of a line: \<^verbatim>\<open>for (i = Math.max(0, idx - 10); i <= Math.min(n - 1, idx + 10); i++)\<close>.
\<close>

definition set_add :: "nat \<Rightarrow> nat list \<Rightarrow> nat list" where
  "set_add i indices = (if i \<in> set indices then indices else indices @ [i])"

definition window :: "nat \<Rightarrow> nat \<Rightarrow> nat list" where
  "window n idx =
     map nat [max 0 (int idx - 10) ..  min (int n - 1) (int idx + 10)]"

text \<open>
  The loop over the sorted indices: an index that follows its predecessor by one extends
  the current chunk, any other closes it. The state is the chunks closed so far, the
  current chunk and the previous index (none at the first).
  \<^verbatim>\<open>lines[ci]\<close> out of range is \<^verbatim>\<open>undefined\<close>, which \<^verbatim>\<open>join\<close> renders as the empty string.
\<close>

definition line_at :: "string list \<Rightarrow> nat \<Rightarrow> string" where
  "line_at lines ci = (if ci < length lines then lines ! ci else [])"

definition render_chunk :: "string list \<Rightarrow> nat list \<Rightarrow> string" where
  "render_chunk lines currentChunk = join [newline] (map (line_at lines) currentChunk)"

fun chunk_step :: "string list \<Rightarrow> nat \<Rightarrow> string list \<times> nat list \<times> nat option
    \<Rightarrow> string list \<times> nat list \<times> nat option" where
  "chunk_step lines idx (chunks, currentChunk, None) = (chunks, currentChunk @ [idx], Some idx)"
| "chunk_step lines idx (chunks, currentChunk, Some prev) =
     (if idx = prev + 1 then (chunks, currentChunk @ [idx], Some idx)
      else (chunks @ [render_chunk lines currentChunk], [idx], Some idx))"

definition make_chunks :: "string list \<Rightarrow> nat list \<Rightarrow> string list" where
  "make_chunks lines sortedIndices =
     (case fold (chunk_step lines) sortedIndices ([], [], None) of
        (chunks, currentChunk, _) \<Rightarrow>
          if length currentChunk > 0 then chunks @ [render_chunk lines currentChunk]
          else chunks)"

definition elision :: string where
  "elision = [newline] @ ''...'' @ [newline]"

definition extractRelevantPortion :: "string \<Rightarrow> string \<Rightarrow> string" where
  "extractRelevantPortion content query =
     (if length content \<le> 8000 then content
      else
        let queryWords = filter (\<lambda>w. length w > 3) (split_ws (toLowerCase query));
            lines = split_char newline content;
            scoredLines = map (\<lambda>(idx, line). (line, line_score queryWords line, idx))
                            (enumerate 0 lines);
            relevant = filter (\<lambda>(line, score, idx). score > 0) scoredLines
        in if length relevant = 0 then take 6000 content
           else
             let indices = fold (\<lambda>(line, score, idx) acc. fold set_add (window (length lines) idx) acc)
                             relevant [];
                 sortedIndices = sort indices;
                 chunks = make_chunks lines sortedIndices
             in take 6000 (join elision chunks))"

text \<open>
  The keywords of a query as \<open>extractRelevantPortion\<close> computes them, and the two conditions
  under which no line of a document scores.
\<close>

definition query_keywords :: "string \<Rightarrow> string list" where
  "query_keywords query = filter (\<lambda>w. length w > 3) (split_ws (toLowerCase query))"

definition no_keyword_hit :: "string \<Rightarrow> string \<Rightarrow> bool" where
  "no_keyword_hit content query =
     list_all (\<lambda>line. list_all (\<lambda>w. \<not> includes_str (toLowerCase line) w) (query_keywords query))
       (split_char newline content)"

definition no_section_marker :: "string \<Rightarrow> bool" where
  "no_section_marker content = list_all (\<lambda>line. \<not> section_marker line) (split_char newline content)"

section \<open>Values, bindings and effects\<close>

text \<open>
  A thrown value is an \<^verbatim>\<open>Error\<close> with its message or anything else; the handler of
  \<open>fetch\<close> tells the two apart with \<^verbatim>\<open>instanceof Error\<close>.
\<close>

datatype js_exn = JsError string | NonError

datatype role = System | User | Assistant

record ChatMessage =
  role :: role
  content :: string
  timestamp :: nat

text \<open>
  The metadata of a document as the agent reads it: the fields \<^verbatim>\<open>title\<close> and
  \<^verbatim>\<open>type\<close>, either of which may be \<^verbatim>\<open>undefined\<close>.
\<close>

record Metadata =
  title :: "string option"
  doc_type :: "string option"

text \<open>The interface \<^verbatim>\<open>SearchResult\<close>; a match of the index may carry no metadata.\<close>

record SearchResult =
  documentId :: string
  doc_content :: string
  score :: real
  metadata :: "Metadata option"

text \<open>One entry of \<^verbatim>\<open>searchResults.matches\<close>.\<close>

record VectorMatch =
  match_id :: string
  match_score :: real
  match_metadata :: "Metadata option"

type_synonym embedding = "real list"

text \<open>
  The binding \<^verbatim>\<open>DOCS_VECTORDB\<close> has type \<^verbatim>\<open>any\<close>: it may be missing, it may be a
  value without a callable \<^verbatim>\<open>query\<close>, or it offers \<^verbatim>\<open>query(vector, {topK, returnMetadata})\<close>,
  which throws or answers; the answer may lack the field \<^verbatim>\<open>matches\<close>.
\<close>

datatype vectordb =
    Missing
  | NotQueryable
  | Queryable "embedding \<Rightarrow> nat \<Rightarrow> js_exn + VectorMatch list option"

text \<open>
  The bucket \<^verbatim>\<open>COMPLIANCE_DOCS\<close>: \<^verbatim>\<open>get(key)\<close> followed by \<^verbatim>\<open>text()\<close> throws, finds
  nothing, or yields the text. The namespace \<^verbatim>\<open>COMPLIANCE_KV\<close>: \<^verbatim>\<open>get(key)\<close> likewise,
  and \<^verbatim>\<open>list({prefix})\<close> throws or answers with key names (the field \<^verbatim>\<open>keys\<close> may be
  absent).
\<close>

type_synonym R2Bucket = "string \<Rightarrow> js_exn + string option"

record KVNamespace =
  kv_get :: "string \<Rightarrow> js_exn + string option"
  kv_list :: "string \<Rightarrow> js_exn + string list option"

text \<open>
  What the generation model returns: a string, a stream of decoded chunks that ends or
  fails after them, an object with a field \<^verbatim>\<open>response\<close>, or any other value, given by
  its \<^verbatim>\<open>JSON.stringify\<close> text. A stream is taken to be finite.
\<close>

datatype ai_response =
    PlainString string
  | Stream "string list" "js_exn option"
  | WithResponse string
  | OtherValue string

text \<open>
  Everything one request meets outside the agent: the four bindings of \<^verbatim>\<open>Env\<close>, whether
  the durable storage fails on \<^verbatim>\<open>get\<close> or \<^verbatim>\<open>put\<close>, the readings of \<^verbatim>\<open>Date.now()\<close> in
  the order they are taken, \<^verbatim>\<open>JSON.parse\<close> on a metadata text (it throws, yields
  \<^verbatim>\<open>null\<close>, or a value whose fields are read), and what \<^verbatim>\<open>RegExp\<close> does with a
  pattern outside the part of the syntax modelled below. \<open>AI_embed\<close> and
  \<open>AI_generate\<close> are the two calls of \<^verbatim>\<open>ai.run\<close> on the client built from the binding
  \<^verbatim>\<open>AI\<close>. An answer of the embedding model is its \<^verbatim>\<open>data[0]\<close>, or nothing when it has no
  \<^verbatim>\<open>data\<close>. The stores answer the same
  for the same key throughout one request. \<open>completion_order\<close> says, for the reads started
  together under \<^verbatim>\<open>Promise.all\<close>, which of the reads still pending completes next: at
  each step the position of that read among the pending ones, taken modulo their number.
\<close>

record Env =
  AI_embed :: "string \<Rightarrow> js_exn + embedding option"
  AI_generate :: "ChatMessage list \<Rightarrow> js_exn + ai_response"
  DOCS_VECTORDB :: vectordb
  COMPLIANCE_DOCS :: "R2Bucket option"
  COMPLIANCE_KV :: "KVNamespace option"
  storage_get_error :: "js_exn option"
  storage_put_error :: "js_exn option"
  Date_now :: "nat \<Rightarrow> nat"
  JSON_parse :: "string \<Rightarrow> js_exn + Metadata option"
  RegExp_other :: "string \<Rightarrow> string \<Rightarrow> js_exn + nat"
  completion_order :: "nat \<Rightarrow> nat"

text \<open>The calls that leave the agent, in the order they are made.\<close>

datatype event =
    Embed string
  | VectorQuery embedding nat
  | R2Get string
  | KvGet string
  | KvList string
  | StorageGet
  | Generate "ChatMessage list"
  | StoragePut "ChatMessage list"

text \<open>
  The state a request runs in: the value stored under the key \<^verbatim>\<open>history\<close> of the durable
  object (none before the first \<^verbatim>\<open>put\<close>) and the calls made so far. A computation takes
  the state and returns a value or a thrown exception together with the new state.
\<close>

record world =
  history :: "ChatMessage list option"
  calls :: "event list"

type_synonym 'a io = "world \<Rightarrow> (js_exn + 'a) \<times> world"

definition ret :: "'a \<Rightarrow> 'a io" where
  "ret x = (\<lambda>w. (Inr x, w))"

definition throw :: "js_exn \<Rightarrow> 'a io" where
  "throw e = (\<lambda>w. (Inl e, w))"

definition lift :: "js_exn + 'a \<Rightarrow> 'a io" where
  "lift r = (\<lambda>w. (r, w))"

definition bind :: "'a io \<Rightarrow> ('a \<Rightarrow> 'b io) \<Rightarrow> 'b io" where
  "bind m f = (\<lambda>w. case m w of (Inl e, w') \<Rightarrow> (Inl e, w') | (Inr x, w') \<Rightarrow> f x w')"

definition catch :: "'a io \<Rightarrow> (js_exn \<Rightarrow> 'a io) \<Rightarrow> 'a io" where
  "catch m handler = (\<lambda>w. case m w of (Inl e, w') \<Rightarrow> handler e w' | (Inr x, w') \<Rightarrow> (Inr x, w'))"

text \<open>An outside call: it is recorded, and its answer is what the environment gives.\<close>

definition call :: "event \<Rightarrow> js_exn + 'a \<Rightarrow> 'a io" where
  "call ev answer = (\<lambda>w. (answer, w\<lparr>calls := calls w @ [ev]\<rparr>))"

text \<open>
  \<^verbatim>\<open>this.state.storage.get('history')\<close> and \<^verbatim>\<open>this.state.storage.put('history', h)\<close>; a
  \<^verbatim>\<open>put\<close> that throws stores nothing.
\<close>

definition storage_get :: "Env \<Rightarrow> ChatMessage list option io" where
  "storage_get env =
     (\<lambda>w. (case storage_get_error env of Some e \<Rightarrow> Inl e | None \<Rightarrow> Inr (history w),
           w\<lparr>calls := calls w @ [StorageGet]\<rparr>))"

definition storage_put :: "Env \<Rightarrow> ChatMessage list \<Rightarrow> unit io" where
  "storage_put env h =
     (\<lambda>w. case storage_put_error env of
             Some e \<Rightarrow> (Inl e, w\<lparr>calls := calls w @ [StoragePut h]\<rparr>)
           | None \<Rightarrow> (Inr (), w\<lparr>history := Some h, calls := calls w @ [StoragePut h]\<rparr>))"

text \<open>
  The \<^verbatim>\<open>TypeError\<close> for reading a property of \<^verbatim>\<open>undefined\<close> or \<^verbatim>\<open>null\<close>, with the
  engine's wording for \<^verbatim>\<open>undefined\<close>.
\<close>

definition type_error :: "string \<Rightarrow> js_exn" where
  "type_error property =
     JsError (''Cannot read properties of undefined (reading '' @ [CHR 0x27] @ property @ [CHR 0x27] @ '')'')"

section \<open>Reading a document\<close>

text \<open>
  \<open>getDocumentContent\<close>: the bucket first, under \<^verbatim>\<open>${docId}.txt\<close>; when the bucket is
  missing or has no such object, the namespace under \<^verbatim>\<open>doc:${docId}:content\<close>. Any
  exception on the way gives \<^verbatim>\<open>null\<close>; the namespace is not tried after a failing bucket.
\<close>

definition getDocumentContent :: "Env \<Rightarrow> string \<Rightarrow> string option io" where
  "getDocumentContent env docId =
     catch
       (bind (case COMPLIANCE_DOCS env of
                None \<Rightarrow> ret None
              | Some bucket \<Rightarrow> call (R2Get (docId @ ''.txt'')) (bucket (docId @ ''.txt'')))
          (\<lambda>obj. case obj of
                    Some fetched \<Rightarrow> ret (Some fetched)
                  | None \<Rightarrow>
                      (case COMPLIANCE_KV env of
                         Some kv \<Rightarrow> call (KvGet (''doc:'' @ docId @ '':content''))
                                      (kv_get kv (''doc:'' @ docId @ '':content''))
                       | None \<Rightarrow> ret None)))
       (\<lambda>e. ret None)"

section \<open>Similarity search\<close>

text \<open>
  The callbacks mapped over \<^verbatim>\<open>searchResults.matches\<close> run under \<^verbatim>\<open>Promise.all\<close>: each
  runs up to its first \<^verbatim>\<open>await\<close>, inside \<open>getDocumentContent\<close>, before the next starts,
  and goes on when the read it waits for completes, in the order the environment decides.
  A read in progress waits for the bucket, waits for the namespace, or is settled with the
  content or \<^verbatim>\<open>null\<close>. \<open>start_read\<close> is \<open>getDocumentContent\<close> up to its first
  \<^verbatim>\<open>await\<close>, with the call it issues; \<open>resume_read\<close> is what it does when the read it
  waits for completes.
\<close>

datatype read_state = AwaitBucket string | AwaitNamespace string | Settled "string option"

definition start_read :: "Env \<Rightarrow> string \<Rightarrow> read_state \<times> event list" where
  "start_read env docId =
     (case COMPLIANCE_DOCS env of
        Some bucket \<Rightarrow> (AwaitBucket docId, [R2Get (docId @ ''.txt'')])
      | None \<Rightarrow>
          (case COMPLIANCE_KV env of
             Some kv \<Rightarrow> (AwaitNamespace docId, [KvGet (''doc:'' @ docId @ '':content'')])
           | None \<Rightarrow> (Settled None, [])))"

fun resume_read :: "Env \<Rightarrow> read_state \<Rightarrow> read_state \<times> event list" where
  "resume_read env (AwaitBucket docId) =
     (case COMPLIANCE_DOCS env of
        None \<Rightarrow> (Settled None, [])
      | Some bucket \<Rightarrow>
          (case bucket (docId @ ''.txt'') of
             Inl e \<Rightarrow> (Settled None, [])
           | Inr (Some fetched) \<Rightarrow> (Settled (Some fetched), [])
           | Inr None \<Rightarrow>
               (case COMPLIANCE_KV env of
                  Some kv \<Rightarrow> (AwaitNamespace docId, [KvGet (''doc:'' @ docId @ '':content'')])
                | None \<Rightarrow> (Settled None, []))))"
| "resume_read env (AwaitNamespace docId) =
     (case COMPLIANCE_KV env of
        None \<Rightarrow> (Settled None, [])
      | Some kv \<Rightarrow>
          (case kv_get kv (''doc:'' @ docId @ '':content'') of
             Inl e \<Rightarrow> (Settled None, [])
           | Inr fetched \<Rightarrow> (Settled fetched, [])))"
| "resume_read env (Settled fetched) = (Settled fetched, [])"

text \<open>
  The rest of a callback, once \<open>getDocumentContent\<close> has returned, with the set
  \<^verbatim>\<open>seenContent\<close> as it is then: a match without content (\<^verbatim>\<open>null\<close> or the empty string)
  and a match whose first 200 characters were seen give \<^verbatim>\<open>null\<close>; any other match is
  kept and its prefix added. Test and addition happen with no \<^verbatim>\<open>await\<close> between them.
\<close>

definition after_content :: "VectorMatch \<Rightarrow> string option \<Rightarrow> string list
    \<Rightarrow> SearchResult option \<times> string list" where
  "after_content m fetched seenContent =
     (if fetched = None \<or> fetched = Some [] then (None, seenContent)
      else
        let contentHash = take 200 (the fetched)
        in if contentHash \<in> set seenContent then (None, seenContent)
           else (Some \<lparr>documentId = match_id m, doc_content = the fetched,
                       score = match_score m, metadata = match_metadata m\<rparr>,
                 contentHash # seenContent))"

text \<open>
  The callbacks in progress, each with its position among the matches. At every step the
  read chosen by \<open>order\<close> completes; a callback whose read is settled finishes and
  writes its result at its own position. The calls issued on the way are collected.
\<close>

definition stages_left :: "read_state \<Rightarrow> nat" where
  "stages_left st = (case st of AwaitBucket d \<Rightarrow> 3 | AwaitNamespace d \<Rightarrow> 2 | Settled r \<Rightarrow> 1)"

function run_callbacks :: "Env \<Rightarrow> (nat \<Rightarrow> nat) \<Rightarrow> (nat \<times> VectorMatch \<times> read_state) list \<Rightarrow> string list
    \<Rightarrow> SearchResult option list \<Rightarrow> nat \<Rightarrow> event list
    \<Rightarrow> SearchResult option list \<times> event list" where
  "run_callbacks env order pending seenContent results step evs =
     (if pending = [] then (results, evs)
      else
        let k = order step mod length pending;
            i = fst (pending ! k);
            m = fst (snd (pending ! k));
            st = fst (resume_read env (snd (snd (pending ! k))));
            new = snd (resume_read env (snd (snd (pending ! k))))
        in case st of
             Settled fetched \<Rightarrow>
               run_callbacks env order (take k pending @ drop (Suc k) pending)
                 (snd (after_content m fetched seenContent))
                 (results[i := fst (after_content m fetched seenContent)])
                 (Suc step) (evs @ new)
           | _ \<Rightarrow>
               run_callbacks env order (pending[k := (i, m, st)]) seenContent results
                 (Suc step) (evs @ new))"
  by pat_completeness auto
termination
proof (relation "measure (\<lambda>(env, order, pending, seenContent, results, step, evs).
                   sum_list (map (\<lambda>p. stages_left (snd (snd p))) pending))")
  show "wf (measure (\<lambda>(env, order, pending, seenContent, results, step, evs).
                   sum_list (map (\<lambda>p. stages_left (snd (snd p))) pending)))" by simp
next
  fix env :: Env and order :: "nat \<Rightarrow> nat" and pending :: "(nat \<times> VectorMatch \<times> read_state) list"
    and seenContent :: "string list" and results :: "SearchResult option list" and step :: nat
    and evs :: "event list" and k i m st new fetched
  assume ne: "pending \<noteq> []" and k: "k = order step mod length pending"
  then have lt: "k < length pending" by simp
  have split: "pending = take k pending @ pending ! k # drop (Suc k) pending"
    using lt by (rule id_take_nth_drop)
  have "sum_list (map (\<lambda>p. stages_left (snd (snd p))) (take k pending @ drop (Suc k) pending))
        < sum_list (map (\<lambda>p. stages_left (snd (snd p))) (take k pending @ pending ! k # drop (Suc k) pending))"
    by (simp add: stages_left_def split: read_state.split)
  with split have "sum_list (map (\<lambda>p. stages_left (snd (snd p))) (take k pending @ drop (Suc k) pending))
        < sum_list (map (\<lambda>p. stages_left (snd (snd p))) pending)" by simp
  then show "((env, order, take k pending @ drop (Suc k) pending,
         snd (after_content m fetched seenContent),
         results[i := fst (after_content m fetched seenContent)], Suc step, evs @ new),
        env, order, pending, seenContent, results, step, evs)
       \<in> measure (\<lambda>(env, order, pending, seenContent, results, step, evs).
                   sum_list (map (\<lambda>p. stages_left (snd (snd p))) pending))"
    by simp
next
  fix env :: Env and order :: "nat \<Rightarrow> nat" and pending :: "(nat \<times> VectorMatch \<times> read_state) list"
    and seenContent :: "string list" and results :: "SearchResult option list" and step :: nat
    and evs :: "event list" and k i m st new docId
  assume ne: "pending \<noteq> []" and k: "k = order step mod length pending"
    and st: "st = fst (resume_read env (snd (snd (pending ! k))))"
    and aw: "st = AwaitBucket docId"
  then have False by (cases "snd (snd (pending ! k))") (auto split: option.splits sum.splits)
  then show "((env, order, pending[k := (i, m, st)], seenContent, results, Suc step, evs @ new),
        env, order, pending, seenContent, results, step, evs)
       \<in> measure (\<lambda>(env, order, pending, seenContent, results, step, evs).
                   sum_list (map (\<lambda>p. stages_left (snd (snd p))) pending))" ..
next
  fix env :: Env and order :: "nat \<Rightarrow> nat" and pending :: "(nat \<times> VectorMatch \<times> read_state) list"
    and seenContent :: "string list" and results :: "SearchResult option list" and step :: nat
    and evs :: "event list" and k i m st new docId
  assume ne: "pending \<noteq> []" and k: "k = order step mod length pending"
    and st: "st = fst (resume_read env (snd (snd (pending ! k))))"
    and aw: "st = AwaitNamespace docId"
  from ne k have lt: "k < length pending" by simp
  from st aw obtain d where was: "snd (snd (pending ! k)) = AwaitBucket d"
    by (cases "snd (snd (pending ! k))") (auto split: option.splits sum.splits)
  have split: "pending = take k pending @ pending ! k # drop (Suc k) pending"
    using lt by (rule id_take_nth_drop)
  have upd: "pending[k := (i, m, st)] = take k pending @ (i, m, st) # drop (Suc k) pending"
    using lt by (rule upd_conv_take_nth_drop)
  have "sum_list (map (\<lambda>p. stages_left (snd (snd p))) (take k pending @ (i, m, st) # drop (Suc k) pending))
        < sum_list (map (\<lambda>p. stages_left (snd (snd p))) (take k pending @ pending ! k # drop (Suc k) pending))"
    using was aw by (simp add: stages_left_def)
  with split upd have "sum_list (map (\<lambda>p. stages_left (snd (snd p))) (pending[k := (i, m, st)]))
        < sum_list (map (\<lambda>p. stages_left (snd (snd p))) pending)" by simp
  then show "((env, order, pending[k := (i, m, st)], seenContent, results, Suc step, evs @ new),
        env, order, pending, seenContent, results, step, evs)
       \<in> measure (\<lambda>(env, order, pending, seenContent, results, step, evs).
                   sum_list (map (\<lambda>p. stages_left (snd (snd p))) pending))"
    by simp
qed

declare run_callbacks.simps [simp del]

text \<open>
  \<^verbatim>\<open>Promise.all(matches.map(...))\<close>: all callbacks are started in the order of the
  matches, then run to the end; the array of results has one entry for each match.
\<close>

definition promise_all :: "Env \<Rightarrow> VectorMatch list \<Rightarrow> SearchResult option list io" where
  "promise_all env matches =
     (\<lambda>w. let started = map (\<lambda>(i, m). (i, m, fst (start_read env (match_id m)))) (enumerate 0 matches);
               issued = concat (map (\<lambda>m. snd (start_read env (match_id m))) matches);
               settled = run_callbacks env (completion_order env) started [] (replicate (length matches) None) 0 issued
           in (Inr (fst settled), w\<lparr>calls := calls w @ snd settled\<rparr>))"

text \<open>\<^verbatim>\<open>relevantContext.filter(Boolean)\<close>.\<close>

definition filter_Boolean :: "'a option list \<Rightarrow> 'a list" where
  "filter_Boolean xs = map the (filter (\<lambda>x. x \<noteq> None) xs)"

text \<open>
  The block guarded by \<^verbatim>\<open>DOCS_VECTORDB && typeof DOCS_VECTORDB.query === 'function'\<close>, with
  its own \<^verbatim>\<open>try\<close>: reading \<^verbatim>\<open>queryEmbedding.data[0]\<close>, the query with \<^verbatim>\<open>topK: 3\<close>, and the
  mapping over the matches. Whatever is thrown inside leaves \<^verbatim>\<open>validResults\<close> empty.
\<close>

definition vector_search :: "Env \<Rightarrow> embedding option \<Rightarrow> SearchResult list io" where
  "vector_search env queryEmbedding =
     (case DOCS_VECTORDB env of
        Queryable query \<Rightarrow>
          catch
            (bind (case queryEmbedding of
                     None \<Rightarrow> throw (type_error ''0'')
                   | Some v \<Rightarrow> call (VectorQuery v 3) (query v 3))
               (\<lambda>searchResults.
                  case searchResults of
                    None \<Rightarrow> throw (type_error ''map'')
                  | Some matches \<Rightarrow>
                      bind (promise_all env matches)
                        (\<lambda>relevantContext. ret (filter_Boolean relevantContext))))
            (\<lambda>vectorErr. ret [])
      | _ \<Rightarrow> ret [])"

section \<open>Lexical fallback\<close>

text \<open>
  The score of a document adds, for each query word \<open>w\<close>,
  \<^verbatim>\<open>(lowerContent.match(new RegExp(w, 'g')) || []).length\<close>. The word is the source of a
  regular expression. The model covers the patterns made of ordinary characters and the
  dot: an ordinary character matches itself, a dot matches any character but a line
  terminator, and the global match counts the matches found from left to right, each
  search starting where the previous match ended (one further after an empty match).
  Any other pattern is left to \<open>RegExp_other\<close>.
\<close>

definition syntax_character :: "char \<Rightarrow> bool" where
  "syntax_character c = (c \<in> set (''^$.*+?()[]{}|'' @ [CHR 0x5C]))"

definition modelled_pattern :: "string \<Rightarrow> bool" where
  "modelled_pattern w = list_all (\<lambda>c. c = CHR ''.'' \<or> \<not> syntax_character c) w"

definition line_terminator :: "char \<Rightarrow> bool" where
  "line_terminator c = (c = newline \<or> c = CHR 0x0D)"

fun pattern_at :: "string \<Rightarrow> string \<Rightarrow> bool" where
  "pattern_at [] s = True"
| "pattern_at (p # ps) [] = False"
| "pattern_at (p # ps) (c # cs) =
     ((if p = CHR ''.'' then \<not> line_terminator c else c = p) \<and> pattern_at ps cs)"

function count_matches :: "string \<Rightarrow> string \<Rightarrow> nat" where
  "count_matches w s =
     (if pattern_at w s then
        (if w = [] then (case s of [] \<Rightarrow> 1 | _ # rest \<Rightarrow> 1 + count_matches w rest)
         else 1 + count_matches w (drop (length w) s))
      else (case s of [] \<Rightarrow> 0 | _ # rest \<Rightarrow> count_matches w rest))"
  by pat_completeness auto
termination
proof (relation "measure (\<lambda>(w, s). length s)")
  show "wf (measure (\<lambda>(w, s). length s))" by simp
next
  fix w s :: string
  assume match: "pattern_at w s" and nonempty: "w \<noteq> []"
  have fits: "pattern_at p t \<Longrightarrow> length p \<le> length t" for p t
    by (induction p t rule: pattern_at.induct) auto
  from nonempty obtain p ps where "w = p # ps" by (cases w) auto
  with fits [OF match] have "length (drop (length w) s) < length s" by simp
  then show "((w, drop (length w) s), (w, s)) \<in> measure (\<lambda>(w, s). length s)" by simp
qed simp_all

declare count_matches.simps [simp del]

definition match_count :: "Env \<Rightarrow> string \<Rightarrow> string \<Rightarrow> js_exn + nat" where
  "match_count env lowerContent w =
     (if modelled_pattern w then Inr (count_matches w lowerContent)
      else RegExp_other env w lowerContent)"

text \<open>The loop \<^verbatim>\<open>for (const w of qWords) { ...; score += matches; }\<close>.\<close>

fun sum_matches :: "Env \<Rightarrow> string \<Rightarrow> string list \<Rightarrow> nat \<Rightarrow> js_exn + nat" where
  "sum_matches env lowerContent [] sc = Inr sc"
| "sum_matches env lowerContent (w # ws) sc =
     (case match_count env lowerContent w of
        Inl e \<Rightarrow> Inl e
      | Inr matches \<Rightarrow> sum_matches env lowerContent ws (sc + matches))"

text \<open>
  The body of the \<^verbatim>\<open>try\<close> for one key of the listing; it yields the entry pushed on
  \<^verbatim>\<open>scored\<close>, or nothing where the source says \<^verbatim>\<open>continue\<close> or pushes nothing. The
  metadata is first read in the logging line after the content is fetched.
\<close>

definition nth_field :: "string list \<Rightarrow> nat \<Rightarrow> string option" where
  "nth_field pieces i = (if i < length pieces then Some (pieces ! i) else None)"

definition score_document :: "Env \<Rightarrow> KVNamespace \<Rightarrow> string list \<Rightarrow> string \<Rightarrow> SearchResult option io" where
  "score_document env kv qWords name =
     bind (call (KvGet name) (kv_get kv name))
       (\<lambda>metadataStr.
          if metadataStr = None \<or> metadataStr = Some [] then ret None
          else
            bind (lift (JSON_parse env (the metadataStr)))
              (\<lambda>parsed.
                 let ident = nth_field (split_char CHR '':'' name) 1
                 in if ident = None \<or> ident = Some [] then ret None
                    else
                      bind (getDocumentContent env (the ident))
                        (\<lambda>contentText.
                           if contentText = None \<or> contentText = Some [] then ret None
                           else
                             (case parsed of
                                None \<Rightarrow> throw (type_error ''title'')
                              | Some md \<Rightarrow>
                                  bind (lift (sum_matches env (toLowerCase (the contentText)) qWords 0))
                                    (\<lambda>sc.
                                       if sc > 0 then
                                         ret (Some \<lparr>documentId = the ident,
                                                    doc_content = the contentText,
                                                    score = real sc,
                                                    metadata = Some \<lparr>title = title md,
                                                                      doc_type = doc_type md\<rparr>\<rparr>)
                                       else ret None)))))"

text \<open>
  The loop over the listed keys: a key whose name contains \<^verbatim>\<open>:content\<close> is skipped, and an
  exception in the body is caught and the loop goes on with the next key.
\<close>

fun scan_keys :: "Env \<Rightarrow> KVNamespace \<Rightarrow> string list \<Rightarrow> string list \<Rightarrow> SearchResult list io" where
  "scan_keys env kv qWords [] = ret []"
| "scan_keys env kv qWords (name # names) =
     bind (if includes_str name '':content'' then ret None
           else catch (score_document env kv qWords name) (\<lambda>err. ret None))
       (\<lambda>pushed.
          bind (scan_keys env kv qWords names)
            (\<lambda>others. ret (case pushed of None \<Rightarrow> others | Some entry \<Rightarrow> entry # others)))"

text \<open>
  \<^verbatim>\<open>scored.sort((a, b) => b.score - a.score)\<close>: descending by score, and stable, as
  \<^verbatim>\<open>Array.prototype.sort\<close> is.
\<close>

definition sort_by_score :: "SearchResult list \<Rightarrow> SearchResult list" where
  "sort_by_score scored = sort_key (\<lambda>entry. - score entry) scored"

text \<open>
  The block under \<^verbatim>\<open>if (!validResults || validResults.length === 0)\<close>. Without the
  namespace binding nothing is done; an exception of the listing is not caught here.
\<close>

definition lexical_fallback :: "Env \<Rightarrow> string \<Rightarrow> SearchResult list io" where
  "lexical_fallback env message =
     (case COMPLIANCE_KV env of
        None \<Rightarrow> ret []
      | Some kv \<Rightarrow>
          bind (call (KvList ''doc:'') (kv_list kv ''doc:''))
            (\<lambda>listed.
               let keys = (case listed of None \<Rightarrow> [] | Some names \<Rightarrow> names);
                   qWords = filter (\<lambda>w. w \<noteq> []) (split_ws (toLowerCase message))
               in bind (scan_keys env kv qWords keys)
                    (\<lambda>scored. ret (take 2 (sort_by_score scored)))))"

definition retrieve :: "Env \<Rightarrow> embedding option \<Rightarrow> string \<Rightarrow> SearchResult list io" where
  "retrieve env queryEmbedding message =
     bind (vector_search env queryEmbedding)
       (\<lambda>validResults.
          if length validResults = 0 then lexical_fallback env message
          else ret validResults)"

section \<open>The chat agent\<close>

definition SYSTEM_PROMPT :: string where
  \<open>SYSTEM_PROMPT = join [newline]
     [''You are a Data Privacy Compliance Officer. You must ONLY use information from the documents provided below.'',
      '''',
      ''ABSOLUTE RULES:'',
      ''- ONLY cite information that appears in the document text below'',
      ''- If you see a section number in the document (like "Section 2" or "B.1"), use it'',
      ''- Quote the exact text from the document'',
      ''- If the answer is not in the document, say "This information is not in the provided policy"'',
      ''- DO NOT use any information from your training data'',
      ''- DO NOT make up section numbers or quotes'']\<close>

text \<open>A value in a template literal: \<^verbatim>\<open>undefined\<close> is written as that word.\<close>

definition interpolate :: "string option \<Rightarrow> string" where
  "interpolate v = (case v of None \<Rightarrow> ''undefined'' | Some s \<Rightarrow> s)"

text \<open>The block appended to \<^verbatim>\<open>documentContext\<close> for one document.\<close>

definition document_block :: "Metadata \<Rightarrow> string \<Rightarrow> string" where
  "document_block md relevantPortion =
     [newline] @ ''=== POLICY DOCUMENT: '' @ interpolate (title md) @ '' ==='' @ [newline]
     @ ''TYPE: '' @ interpolate (doc_type md) @ [newline, newline]
     @ relevantPortion @ [newline, newline]
     @ ''=== END DOCUMENT ==='' @ [newline, newline]"

text \<open>
  The loop that builds \<^verbatim>\<open>documentContext\<close>. Reading \<^verbatim>\<open>doc.metadata.title\<close> of a result
  without metadata throws.
\<close>

fun build_context :: "string \<Rightarrow> SearchResult list \<Rightarrow> string \<Rightarrow> js_exn + string" where
  "build_context message [] documentContext = Inr documentContext"
| "build_context message (d # ds) documentContext =
     (let relevantPortion = extractRelevantPortion (doc_content d) message
      in case metadata d of
           None \<Rightarrow> Inl (type_error ''title'')
         | Some md \<Rightarrow> build_context message ds (documentContext @ document_block md relevantPortion))"

definition no_documents_notice :: string where
  "no_documents_notice =
     [newline, newline]
     @ ''NO POLICY DOCUMENTS AVAILABLE. You cannot answer compliance questions without documents.''"

definition system_message :: "SearchResult list \<Rightarrow> string \<Rightarrow> string" where
  "system_message validResults documentContext =
     (if length validResults > 0 then
        SYSTEM_PROMPT @ [newline, newline]
        @ ''Here are the policy documents you must reference:'' @ [newline, newline]
        @ documentContext @ [newline, newline]
        @ ''Remember: ONLY use information from the documents above. Quote exact text. Use actual section numbers from the documents.''
      else SYSTEM_PROMPT @ no_documents_notice)"

text \<open>\<^verbatim>\<open>xs.slice(-n)\<close>: the last \<open>n\<close> elements, all of them when there are fewer.\<close>

definition slice_last :: "nat \<Rightarrow> 'a list \<Rightarrow> 'a list" where
  "slice_last n xs = drop (length xs - n) xs"

text \<open>
  The text of the model's answer. The loop over the stream appends each decoded chunk and
  ends when the reader reports \<^verbatim>\<open>done\<close>.
\<close>

fun read_stream :: "string list \<Rightarrow> js_exn option \<Rightarrow> string \<Rightarrow> js_exn + string" where
  "read_stream [] None acc = Inr acc"
| "read_stream [] (Some e) acc = Inl e"
| "read_stream (chunk # chunks) failure acc = read_stream chunks failure (acc @ chunk)"

fun response_text :: "ai_response \<Rightarrow> js_exn + string" where
  "response_text (PlainString s) = Inr s"
| "response_text (Stream chunks failure) = read_stream chunks failure []"
| "response_text (WithResponse s) = Inr s"
| "response_text (OtherValue json) = Inr json"

text \<open>The responses: the plain text with status 400, and the two JSON bodies.\<close>

record Citation =
  cited_title :: "string option"
  cited_type :: "string option"
  relevanceScore :: real

record Debug =
  documentsFound :: nat
  contextLength :: nat
  promptLength :: nat

datatype body =
    PlainText string
  | ChatJson string "Citation list" Debug
  | ErrorJson string string

record Response =
  status :: nat
  body :: body

text \<open>\<^verbatim>\<open>validResults.map(doc => ({title: doc.metadata.title, ...}))\<close>.\<close>

fun citations :: "SearchResult list \<Rightarrow> js_exn + Citation list" where
  "citations [] = Inr []"
| "citations (d # ds) =
     (case metadata d of
        None \<Rightarrow> Inl (type_error ''title'')
      | Some md \<Rightarrow>
          (case citations ds of
             Inl e \<Rightarrow> Inl e
           | Inr cs \<Rightarrow> Inr (\<lparr>cited_title = title md, cited_type = doc_type md,
                               relevanceScore = score d\<rparr> # cs)))"

text \<open>
  The second half of the \<^verbatim>\<open>try\<close> of \<open>fetch\<close>, from the context string to the response,
  given the history read and the results retrieved. The model is called with
  \<^verbatim>\<open>temperature: 0.01\<close> and \<^verbatim>\<open>max_tokens: 1500\<close>, constants that the event does not repeat.
\<close>

definition answer :: "Env \<Rightarrow> string \<Rightarrow> ChatMessage list \<Rightarrow> SearchResult list \<Rightarrow> Response io" where
  "answer env message hist validResults =
     bind (lift (build_context message validResults []))
     (\<lambda>documentContext.
     let systemMessage = system_message validResults documentContext;
         recentHistory = slice_last 2 hist;
         userMessage = \<lparr>role = User, content = message, timestamp = Date_now env 1\<rparr>;
         aiMessages =
           [\<lparr>role = System, content = systemMessage, timestamp = Date_now env 0\<rparr>]
           @ recentHistory @ [userMessage]
     in
     bind (call (Generate aiMessages) (AI_generate env aiMessages))
     (\<lambda>aiResponse.
     bind (lift (response_text aiResponse))
     (\<lambda>responseText.
     let assistantMessage = \<lparr>role = Assistant, content = responseText, timestamp = Date_now env 2\<rparr>;
         trimmedHistory = slice_last 10 (hist @ [userMessage, assistantMessage])
     in
     bind (storage_put env trimmedHistory)
     (\<lambda>_.
     bind (lift (citations validResults))
     (\<lambda>cited.
     ret \<lparr>status = 200,
          body = ChatJson (content assistantMessage) cited
                   \<lparr>documentsFound = length validResults,
                    contextLength = length documentContext,
                    promptLength = length systemMessage\<rparr>\<rparr>)))))"

text \<open>
  The body of the \<^verbatim>\<open>try\<close> of \<open>fetch\<close>: the stored history (\<^verbatim>\<open>|| []\<close> when there is
  none), the embedding of the message, the retrieval, and the answer.
\<close>

definition process :: "Env \<Rightarrow> string \<Rightarrow> Response io" where
  "process env message =
     bind (storage_get env)
     (\<lambda>stored.
     let hist = (case stored of None \<Rightarrow> [] | Some h \<Rightarrow> h)
     in
     bind (call (Embed message) (AI_embed env message))
     (\<lambda>queryEmbedding.
     bind (retrieve env queryEmbedding message)
     (\<lambda>validResults. answer env message hist validResults)))"

definition bad_request :: Response where
  "bad_request = \<lparr>status = 400, body = PlainText ''Message parameter is required''\<rparr>"

definition failure_response :: "js_exn \<Rightarrow> Response" where
  "failure_response err =
     \<lparr>status = 500,
      body = ErrorJson ''Failed to process your request''
               (case err of JsError msg \<Rightarrow> msg | NonError \<Rightarrow> ''Unknown error'')\<rparr>"

text \<open>
  \<open>fetch\<close>, given the value of \<^verbatim>\<open>url.searchParams.get('message')\<close>: \<^verbatim>\<open>null\<close> when the
  request has no such parameter.
\<close>

definition fetch :: "Env \<Rightarrow> string option \<Rightarrow> Response io" where
  "fetch env message =
     (if message = None \<or> message = Some [] then ret bad_request
      else catch (process env (the message)) (\<lambda>err. ret (failure_response err)))"

text \<open>
  A session: the requests that reach one durable object, handled one after the other,
  each with the environment it meets.
\<close>

fun session :: "(Env \<times> string option) list \<Rightarrow> world \<Rightarrow> world" where
  "session [] w = w"
| "session ((env, message) # requests) w = session requests (snd (fetch env message w))"

definition fresh :: world where
  "fresh = \<lparr>history = None, calls = []\<rparr>"

section \<open>Notions used to state the properties\<close>

text \<open>
  The messages stored for a session, none before the first \<^verbatim>\<open>put\<close>.
\<close>

definition stored_messages :: "world \<Rightarrow> ChatMessage list" where
  "stored_messages w = (case history w of None \<Rightarrow> [] | Some h \<Rightarrow> h)"

text \<open>
  The calls retrieval may make: reads of the bucket and the namespace, and queries of the
  index with \<^verbatim>\<open>topK\<close> 3. A computation only reads when it leaves the stored history
  alone and adds calls of that kind only. A call is quiet when it is neither the
  generation call nor a \<^verbatim>\<open>put\<close> of the history.
\<close>

definition retrieval_event :: "event \<Rightarrow> bool" where
  "retrieval_event ev =
     (case ev of VectorQuery v k \<Rightarrow> k = 3 | R2Get key \<Rightarrow> True | KvGet key \<Rightarrow> True
               | KvList p \<Rightarrow> True | _ \<Rightarrow> False)"

definition only_reads :: "'a io \<Rightarrow> bool" where
  "only_reads m =
     (\<forall>w. history (snd (m w)) = history w \<and>
          (\<exists>evs. calls (snd (m w)) = calls w @ evs \<and> list_all retrieval_event evs))"

definition quiet_event :: "event \<Rightarrow> bool" where
  "quiet_event ev = (case ev of Generate ms \<Rightarrow> False | StoragePut h \<Rightarrow> False | _ \<Rightarrow> True)"

text \<open>
  Names for the values \<open>answer\<close> builds: the three messages, the sequence sent to the
  model, the history stored after a turn, and the response of status 200.
\<close>

definition system_prompt_message :: "Env \<Rightarrow> SearchResult list \<Rightarrow> string \<Rightarrow> ChatMessage" where
  "system_prompt_message env validResults documentContext =
     \<lparr>role = System, content = system_message validResults documentContext, timestamp = Date_now env 0\<rparr>"

definition user_message :: "Env \<Rightarrow> string \<Rightarrow> ChatMessage" where
  "user_message env message = \<lparr>role = User, content = message, timestamp = Date_now env 1\<rparr>"

definition assistant_message :: "Env \<Rightarrow> string \<Rightarrow> ChatMessage" where
  "assistant_message env responseText = \<lparr>role = Assistant, content = responseText, timestamp = Date_now env 2\<rparr>"

definition prompt :: "Env \<Rightarrow> string \<Rightarrow> ChatMessage list \<Rightarrow> SearchResult list \<Rightarrow> string \<Rightarrow> ChatMessage list" where
  "prompt env message hist validResults documentContext =
     [system_prompt_message env validResults documentContext] @ slice_last 2 hist @ [user_message env message]"

definition trimmed :: "Env \<Rightarrow> string \<Rightarrow> ChatMessage list \<Rightarrow> string \<Rightarrow> ChatMessage list" where
  "trimmed env message hist responseText =
     slice_last 10 (hist @ [user_message env message, assistant_message env responseText])"

definition chat_response :: "string \<Rightarrow> Citation list \<Rightarrow> SearchResult list \<Rightarrow> string \<Rightarrow> Response" where
  "chat_response responseText cited validResults documentContext =
     \<lparr>status = 200,
      body = ChatJson responseText cited
               \<lparr>documentsFound = length validResults,
                contextLength = length documentContext,
                promptLength = length (system_message validResults documentContext)\<rparr>\<rparr>"

text \<open>
  What holds of the callbacks in progress, the prefixes seen and the results written so
  far: the positions in progress are distinct and still empty, every result written has
  its prefix among those seen, and no two results written share a prefix.
\<close>

definition tidy :: "(nat \<times> VectorMatch \<times> read_state) list \<Rightarrow> string list \<Rightarrow> SearchResult option list \<Rightarrow> bool" where
  "tidy pending seen results =
     (distinct (map fst pending) \<and>
      (\<forall>p \<in> set pending. fst p < length results \<and> results ! fst p = None) \<and>
      (\<forall>c \<in> set (filter_Boolean results). take 200 (doc_content c) \<in> set seen) \<and>
      distinct (map (\<lambda>c. take 200 (doc_content c)) (filter_Boolean results)))"

text \<open>
  The exceptions that no handler inside the \<^verbatim>\<open>try\<close> body of \<open>fetch\<close> covers, each with
  the place that throws it: the read of the stored history, the embedding call, the listing
  of the keys by the keyword search (reached when the similarity search gave nothing), the
  assembling of the context (a candidate without metadata), the generation call, the
  reading of its answer, and the write of the history. Exceptions of the index query, of
  the reads of document contents and of the scoring of one document are not among them:
  they are caught where they occur.
\<close>

inductive leaves_try :: "Env \<Rightarrow> string \<Rightarrow> world \<Rightarrow> js_exn \<Rightarrow> bool"
  for env :: Env and m :: string and w :: world where
  history_read:
    "storage_get_error env = Some e \<Longrightarrow> leaves_try env m w e"
| embedding:
    "storage_get_error env = None \<Longrightarrow> AI_embed env m = Inl e \<Longrightarrow> leaves_try env m w e"
| listing:
    "storage_get_error env = None \<Longrightarrow> AI_embed env m = Inr queryEmbedding \<Longrightarrow>
     vector_search env queryEmbedding (w\<lparr>calls := calls w @ [StorageGet, Embed m]\<rparr>) = (Inr [], w1) \<Longrightarrow>
     COMPLIANCE_KV env = Some kv \<Longrightarrow> kv_list kv ''doc:'' = Inl e \<Longrightarrow>
     leaves_try env m w e"
| assembling:
    "storage_get_error env = None \<Longrightarrow> AI_embed env m = Inr queryEmbedding \<Longrightarrow>
     retrieve env queryEmbedding m (w\<lparr>calls := calls w @ [StorageGet, Embed m]\<rparr>)
       = (Inr validResults, w1) \<Longrightarrow>
     d \<in> set validResults \<Longrightarrow> metadata d = None \<Longrightarrow>
     leaves_try env m w (type_error ''title'')"
| generating:
    "storage_get_error env = None \<Longrightarrow> AI_embed env m = Inr queryEmbedding \<Longrightarrow>
     retrieve env queryEmbedding m (w\<lparr>calls := calls w @ [StorageGet, Embed m]\<rparr>)
       = (Inr validResults, w1) \<Longrightarrow>
     build_context m validResults [] = Inr documentContext \<Longrightarrow>
     AI_generate env (prompt env m (stored_messages w) validResults documentContext) = Inl e \<Longrightarrow>
     leaves_try env m w e"
| reading:
    "storage_get_error env = None \<Longrightarrow> AI_embed env m = Inr queryEmbedding \<Longrightarrow>
     retrieve env queryEmbedding m (w\<lparr>calls := calls w @ [StorageGet, Embed m]\<rparr>)
       = (Inr validResults, w1) \<Longrightarrow>
     build_context m validResults [] = Inr documentContext \<Longrightarrow>
     AI_generate env (prompt env m (stored_messages w) validResults documentContext) = Inr aiResponse \<Longrightarrow>
     response_text aiResponse = Inl e \<Longrightarrow>
     leaves_try env m w e"
| history_write:
    "storage_get_error env = None \<Longrightarrow> AI_embed env m = Inr queryEmbedding \<Longrightarrow>
     retrieve env queryEmbedding m (w\<lparr>calls := calls w @ [StorageGet, Embed m]\<rparr>)
       = (Inr validResults, w1) \<Longrightarrow>
     build_context m validResults [] = Inr documentContext \<Longrightarrow>
     AI_generate env (prompt env m (stored_messages w) validResults documentContext) = Inr aiResponse \<Longrightarrow>
     response_text aiResponse = Inr responseText \<Longrightarrow>
     storage_put_error env = Some e \<Longrightarrow>
     leaves_try env m w e"

section \<open>Example documents\<close>

text \<open>
  A document of one long line with no digit in it, and the same line below a section marker
  and ten empty lines.
\<close>

definition filler :: string where
  "filler = replicate 9000 CHR ''x''"

definition marked_document :: string where
  "marked_document = ''A.1'' @ replicate 11 newline @ filler"

section \<open>Example environments\<close>

text \<open>
  A store of one document, read through the namespace; no index and no bucket; a model
  that answers with a refusal; a clock that starts at 1000. \<open>JSON_parse\<close> reads the one
  metadata text of the examples, and no query word of the examples is a pattern outside
  the modelled part, so that \<open>RegExp_other\<close> is never asked.
\<close>

definition privacy_policy :: string where
  "privacy_policy = ''Section 4.2: incidents are reported within 24 hours''"

definition policy_json :: string where
  \<open>policy_json = ''{"title":"Data Privacy Policy","type":"policy"}''\<close>

definition one_document :: KVNamespace where
  "one_document =
     \<lparr>kv_get = (\<lambda>key. if key = ''doc:d1'' then Inr (Some policy_json)
                       else if key = ''doc:d1:content'' then Inr (Some privacy_policy)
                       else Inr None),
      kv_list = (\<lambda>prefix. Inr (Some [''doc:d1'', ''doc:d1:content'']))\<rparr>"

definition policy_metadata :: Metadata where
  "policy_metadata = \<lparr>title = Some ''Data Privacy Policy'', doc_type = Some ''policy''\<rparr>"

definition refusal :: string where
  "refusal = ''This information is not in the provided policy''"

definition fallback_env :: Env where
  "fallback_env =
     \<lparr>AI_embed = (\<lambda>text. Inr (Some [1, 0])),
      AI_generate = (\<lambda>messages. Inr (PlainString refusal)),
      DOCS_VECTORDB = Missing,
      COMPLIANCE_DOCS = None,
      COMPLIANCE_KV = Some one_document,
      storage_get_error = None,
      storage_put_error = None,
      Date_now = (\<lambda>k. 1000 + k),
      JSON_parse = (\<lambda>s. if s = policy_json then Inr (Some policy_metadata)
                         else Inl (JsError ''Unexpected token'')),
      RegExp_other = (\<lambda>w s. Inl (JsError ''Invalid regular expression'')),
      completion_order = (\<lambda>step. 0)\<rparr>"

text \<open>
  The same with a model that throws, with an index whose query throws, and with a binding
  of the index that has no \<^verbatim>\<open>query\<close>.
\<close>

definition overloaded_env :: Env where
  "overloaded_env = fallback_env\<lparr>AI_generate := (\<lambda>messages. Inl (JsError ''model overloaded''))\<rparr>"

definition failing_query :: "embedding \<Rightarrow> nat \<Rightarrow> js_exn + VectorMatch list option" where
  "failing_query v topK = Inl (JsError ''index unavailable'')"

definition broken_index_env :: Env where
  "broken_index_env = fallback_env\<lparr>DOCS_VECTORDB := Queryable failing_query\<rparr>"

definition unbound_index_env :: Env where
  "unbound_index_env = fallback_env\<lparr>DOCS_VECTORDB := NotQueryable\<rparr>"

text \<open>
  A store in which the same text was uploaded twice, under the identifiers \<open>a\<close> and
  \<open>b\<close>.
\<close>

definition two_copies :: KVNamespace where
  "two_copies =
     \<lparr>kv_get = (\<lambda>key. if key = ''doc:a'' \<or> key = ''doc:b'' then Inr (Some policy_json)
                       else if key = ''doc:a:content'' \<or> key = ''doc:b:content''
                       then Inr (Some privacy_policy)
                       else Inr None),
      kv_list = (\<lambda>prefix. Inr (Some [''doc:a'', ''doc:a:content'', ''doc:b'', ''doc:b:content'']))\<rparr>"

definition duplicate_env :: Env where
  "duplicate_env = fallback_env\<lparr>COMPLIANCE_KV := Some two_copies\<rparr>"

text \<open>
  What the first request \<open>vacation\<close> sends to the model and stores, and the state
  after its retrieval.
\<close>

definition no_documents_prompt :: "ChatMessage list" where
  "no_documents_prompt =
     [\<lparr>role = System, content = SYSTEM_PROMPT @ no_documents_notice, timestamp = 1000\<rparr>,
      \<lparr>role = User, content = ''vacation'', timestamp = 1001\<rparr>]"

definition first_turn :: "ChatMessage list" where
  "first_turn =
     [\<lparr>role = User, content = ''vacation'', timestamp = 1001\<rparr>,
      \<lparr>role = Assistant, content = refusal, timestamp = 1002\<rparr>]"

definition after_retrieval :: world where
  "after_retrieval =
     \<lparr>history = None,
      calls = [StorageGet, Embed ''vacation'', KvList ''doc:'', KvGet ''doc:d1'',
               KvGet ''doc:d1:content'']\<rparr>"

text \<open>
  The second request \<open>hello\<close> of the same session finds nothing as well; \<open>one_turn\<close> and
  \<open>two_turns\<close> are the states before and after it. The third request \<open>incidents\<close> finds
  the policy, and \<open>documents_prompt\<close> is what it sends to the model: the system message
  with the document block, the two messages of the second turn, and the question.
\<close>

definition second_turn :: "ChatMessage list" where
  "second_turn =
     [\<lparr>role = User, content = ''hello'', timestamp = 1001\<rparr>,
      \<lparr>role = Assistant, content = refusal, timestamp = 1002\<rparr>]"

definition one_turn :: world where
  "one_turn = \<lparr>history = Some first_turn, calls = []\<rparr>"

definition two_turns :: world where
  "two_turns = \<lparr>history = Some (first_turn @ second_turn), calls = []\<rparr>"

definition found_policy :: SearchResult where
  "found_policy =
     \<lparr>documentId = ''d1'', doc_content = privacy_policy, score = 1, metadata = Some policy_metadata\<rparr>"

definition documents_prompt :: "ChatMessage list" where
  "documents_prompt =
     [\<lparr>role = System,
       content = SYSTEM_PROMPT @ [newline, newline]
         @ ''Here are the policy documents you must reference:'' @ [newline, newline]
         @ [newline] @ ''=== POLICY DOCUMENT: Data Privacy Policy ==='' @ [newline]
         @ ''TYPE: policy'' @ [newline, newline]
         @ ''Section 4.2: incidents are reported within 24 hours'' @ [newline, newline]
         @ ''=== END DOCUMENT ==='' @ [newline, newline]
         @ [newline, newline]
         @ ''Remember: ONLY use information from the documents above. Quote exact text. Use actual section numbers from the documents.'',
       timestamp = 1000\<rparr>,
      \<lparr>role = User, content = ''hello'', timestamp = 1001\<rparr>,
      \<lparr>role = Assistant, content = refusal, timestamp = 1002\<rparr>,
      \<lparr>role = User, content = ''incidents'', timestamp = 1001\<rparr>]"

text \<open>
  An index that answers with the two copies, \<open>a\<close> ranked before \<open>b\<close>. In \<open>indexed_env\<close>
  the read of \<open>a\<close> settles first, in \<open>late_first_env\<close> the read of \<open>b\<close> does.
\<close>

definition two_matches :: "VectorMatch list" where
  "two_matches =
     [\<lparr>match_id = ''a'', match_score = 1, match_metadata = Some policy_metadata\<rparr>,
      \<lparr>match_id = ''b'', match_score = 1 / 2, match_metadata = Some policy_metadata\<rparr>]"

definition indexed_env :: Env where
  "indexed_env = duplicate_env\<lparr>DOCS_VECTORDB := Queryable (\<lambda>v topK. Inr (Some two_matches))\<rparr>"

definition late_first_env :: Env where
  "late_first_env = indexed_env\<lparr>completion_order := (\<lambda>step. 1)\<rparr>"

section \<open>Properties of the relevance extractor\<close>

lemma fold_keyword_score:
  "list_all (\<lambda>w. \<not> includes_str l w) ws \<Longrightarrow>
   fold (\<lambda>word sc. if includes_str l word then sc + 10 else sc) ws (n::nat) = n"
  by (induction ws arbitrary: n) auto

lemma line_score_zero:
  "list_all (\<lambda>w. \<not> includes_str (toLowerCase line) w) ws \<Longrightarrow> \<not> section_marker line \<Longrightarrow>
   line_score ws line = 0"
  by (simp add: line_score_def fold_keyword_score)

lemma startsWith_set: "startsWith s w \<Longrightarrow> set w \<subseteq> set s"
  by (induction s w rule: startsWith.induct) auto

lemma includes_str_set: "includes_str s w \<Longrightarrow> set w \<subseteq> set s"
proof (induction s)
  case Nil
  then show ?case by simp
next
  case (Cons c cs)
  from Cons.prems have "startsWith (c # cs) w \<or> includes_str cs w" by simp
  then show ?case
  proof
    assume "startsWith (c # cs) w"
    then show ?thesis by (rule startsWith_set)
  next
    assume "includes_str cs w"
    then have "set w \<subseteq> set cs" by (rule Cons.IH)
    then show ?thesis by auto
  qed
qed

lemma marker_here_digit: "marker_here s \<Longrightarrow> \<exists>c \<in> set s. is_digit c"
proof -
  assume m: "marker_here s"
  then consider
    (sec) c cs d ds where "drop 7 s = c # cs" "dropWhile is_space cs = d # ds" "is_digit d"
  | (dot) a b c r where "s = a # b # c # r" "is_digit c"
    by (auto simp: marker_here_def split: list.splits)
  then show ?thesis
  proof cases
    case sec
    have "d \<in> set (dropWhile is_space cs)" using sec(2) by simp
    then have "d \<in> set cs" by (rule set_dropWhileD)
    then have "d \<in> set (drop 7 s)" using sec(1) by simp
    then have "d \<in> set s" by (rule in_set_dropD)
    with sec(3) show ?thesis by blast
  next
    case dot
    then show ?thesis by auto
  qed
qed

lemma section_marker_digit: "section_marker s \<Longrightarrow> \<exists>c \<in> set s. is_digit c"
proof (induction s)
  case Nil
  then show ?case by (auto dest: marker_here_digit)
next
  case (Cons c cs)
  from Cons.prems have "marker_here (c # cs) \<or> section_marker cs" by simp
  then show ?case
  proof
    assume "marker_here (c # cs)"
    then show ?thesis by (rule marker_here_digit)
  next
    assume "section_marker cs"
    then have "\<exists>d \<in> set cs. is_digit d" by (rule Cons.IH)
    then show ?thesis by auto
  qed
qed

lemma split_char_none: "sep \<notin> set s \<Longrightarrow> split_char sep s = [s]"
proof -
  assume "sep \<notin> set s"
  then have none: "dropWhile (\<lambda>c. c \<noteq> sep) s = []" by (induction s) auto
  show ?thesis by (subst split_char.simps) (simp only: none list.case)
qed

lemma split_char_sep: "split_char sep (sep # s) = [] # split_char sep s"
  by (subst split_char.simps) simp

lemma split_char_other:
  "c \<noteq> sep \<Longrightarrow>
   split_char sep (c # s) = (c # hd (split_char sep s)) # tl (split_char sep s)"
proof (cases "dropWhile (\<lambda>c. c \<noteq> sep) s")
  case Nil
  assume "c \<noteq> sep"
  then have "dropWhile (\<lambda>c. c \<noteq> sep) (c # s) = []" using Nil by simp
  then have "split_char sep (c # s) = [c # s]"
    by (subst split_char.simps) (simp only: list.case)
  moreover have "split_char sep s = [s]"
    by (subst split_char.simps) (simp only: Nil list.case)
  ultimately show ?thesis by simp
next
  case (Cons x rest)
  assume ne: "c \<noteq> sep"
  then have "dropWhile (\<lambda>c. c \<noteq> sep) (c # s) = x # rest" using Cons by simp
  then have "split_char sep (c # s) = takeWhile (\<lambda>c. c \<noteq> sep) (c # s) # split_char sep rest"
    by (subst split_char.simps) (simp only: list.case)
  moreover have "split_char sep s = takeWhile (\<lambda>c. c \<noteq> sep) s # split_char sep rest"
    by (subst split_char.simps) (simp only: Cons list.case)
  ultimately show ?thesis using ne by simp
qed

text \<open>
  C4: for every query and every document of at most 8000 characters, the relevance
  extractor returns the document unchanged.
\<close>

theorem small_document_unchanged:
  "length doc \<le> 8000 \<Longrightarrow> extractRelevantPortion doc query = doc"
  by (simp add: extractRelevantPortion_def)

text \<open>
  C3, amended: for a document of more than 8000 characters in which no line contains a
  keyword of the query and no line matches the section-marker pattern, the relevance
  extractor returns exactly the first 6000 characters. Without the second condition the
  statement fails: a line with a section marker scores 5 by itself.
\<close>

theorem no_hit_first_6000:
  assumes "length doc > 8000"
    and "no_keyword_hit doc query"
    and "no_section_marker doc"
  shows "extractRelevantPortion doc query = take 6000 doc"
proof -
  let ?ws = "filter (\<lambda>w. length w > 3) (split_ws (toLowerCase query))"
  let ?lines = "split_char newline doc"
  have zero: "line_score ?ws line = 0" if "line \<in> set ?lines" for line
    using that assms(2,3)
    by (intro line_score_zero) (auto simp: no_keyword_hit_def no_section_marker_def query_keywords_def list_all_iff)
  have "\<not> (case x of (line, sc, idx) \<Rightarrow> sc > 0)"
    if "x \<in> set (map (\<lambda>(idx, line). (line, line_score ?ws line, idx)) (enumerate 0 ?lines))" for x
  proof -
    from that obtain idx line where il: "(idx, line) \<in> set (enumerate 0 ?lines)"
      and x: "x = (line, line_score ?ws line, idx)" by auto
    from il have "line \<in> snd ` set (enumerate 0 ?lines)" by force
    then have "line \<in> set ?lines" by (simp flip: set_map)
    then show ?thesis using x zero by simp
  qed
  then have "filter (\<lambda>(line, sc, idx). sc > 0)
          (map (\<lambda>(idx, line). (line, line_score ?ws line, idx)) (enumerate 0 ?lines)) = []"
    unfolding filter_empty_conv by blast
  then show ?thesis
    using assms(1) by (simp add: extractRelevantPortion_def Let_def)
qed

subsection \<open>The extractor on the example documents\<close>

lemma filler_length: "length filler = 9000"
  by (simp add: filler_def)

lemma filler_set: "set filler = {CHR ''x''}"
  by (simp add: filler_def)

lemma filler_lower: "toLowerCase filler = filler"
proof -
  have "lower_char CHR ''x'' = CHR ''x''" by code_simp
  then show ?thesis by (simp add: filler_def toLowerCase_def)
qed

lemma filler_no_marker: "\<not> section_marker filler"
proof
  assume "section_marker filler"
  then obtain c where "c \<in> set filler" "is_digit c" by (blast dest: section_marker_digit)
  then have "is_digit CHR ''x''" by (simp add: filler_set)
  moreover have "\<not> is_digit CHR ''x''" by code_simp
  ultimately show False by simp
qed

lemma filler_no_keyword:
  "list_all (\<lambda>w. \<not> includes_str (toLowerCase filler) w) [''data'', ''retention'']"
  by (auto simp: filler_lower filler_set dest!: includes_str_set)

lemma filler_lines: "split_char newline filler = [filler]"
  by (rule split_char_none) (simp add: filler_set newline_def)

lemma keywords_example: "query_keywords ''data retention'' = [''data'', ''retention'']"
  by code_simp

lemma marked_lines:
  "split_char newline marked_document = ''A.1'' # replicate 10 [] @ [filler]"
proof -
  have "replicate 11 newline = newline # replicate 10 newline" by code_simp
  have r: "split_char newline (replicate n newline @ filler) = replicate n [] @ [filler]" for n
    by (induction n) (simp_all add: filler_lines split_char_sep)
  have "split_char newline marked_document =
        split_char newline (CHR ''A'' # CHR ''.'' # CHR ''1'' # newline # (replicate 10 newline @ filler))"
    by (simp add: marked_document_def eval_nat_numeral)
  also have "\<dots> = ''A.1'' # split_char newline (replicate 10 newline @ filler)"
    by (simp add: split_char_other split_char_sep newline_def)
  finally show ?thesis by (simp add: r)
qed


lemma score_marked: "line_score [''data'', ''retention''] ''A.1'' = 5"
  by code_simp

lemma score_blank: "line_score [''data'', ''retention''] [] = 0"
  by code_simp

lemma score_filler: "line_score [''data'', ''retention''] filler = 0"
  by (rule line_score_zero [OF filler_no_keyword filler_no_marker])

lemma window_example: "fold set_add (window 12 0) [] = [0, 1, 2, 3, 4, 5, 6, 7, 8, 9, 10]"
  by code_simp

lemma sort_example: "sort [0, 1, 2, 3, 4, 5, 6, 7, 8, 9, 10 :: nat] = [0, 1, 2, 3, 4, 5, 6, 7, 8, 9, 10]"
  by code_simp

lemma chunks_example:
  "make_chunks [l0, l1, l2, l3, l4, l5, l6, l7, l8, l9, l10, l11] [0, 1, 2, 3, 4, 5, 6, 7, 8, 9, 10]
   = [join [newline] [l0, l1, l2, l3, l4, l5, l6, l7, l8, l9, l10]]"
  by (simp add: make_chunks_def render_chunk_def line_at_def)

lemma extract_long:
  "length doc > 8000 \<Longrightarrow>
   extractRelevantPortion doc query =
     (let lines = split_char newline doc;
          relevant = filter (\<lambda>(line, sc, idx). sc > 0)
                       (map (\<lambda>(idx, line). (line, line_score (query_keywords query) line, idx))
                          (enumerate 0 lines))
      in if relevant = [] then take 6000 doc
         else take 6000 (join elision (make_chunks lines (sort
                (fold (\<lambda>(line, sc, idx) acc. fold set_add (window (length lines) idx) acc)
                   relevant [])))))"
  by (simp add: extractRelevantPortion_def query_keywords_def Let_def)

lemma marked_extract:
  "extractRelevantPortion marked_document ''data retention'' = ''A.1'' @ replicate 10 newline"
proof -
  let ?lines = "[''A.1'', [], [], [], [], [], [], [], [], [], [], filler]"
  have long: "length marked_document > 8000"
    by (simp add: marked_document_def filler_length)
  have lines: "split_char newline marked_document = ?lines"
    by (simp add: marked_lines eval_nat_numeral)
  have len: "length ?lines = 12" by simp
  have rel: "filter (\<lambda>(line, sc, idx). sc > 0)
               (map (\<lambda>(idx, line). (line, line_score (query_keywords ''data retention'') line, idx))
                  (enumerate 0 ?lines)) = [(''A.1'', 5, 0)]"
    by (simp add: keywords_example score_marked score_blank score_filler)
  have idx: "fold (\<lambda>(line, sc, idx) acc. fold set_add (window (length ?lines) idx) acc)
               [(''A.1'', 5::nat, 0::nat)] [] = [0, 1, 2, 3, 4, 5, 6, 7, 8, 9, 10]"
    unfolding len by (simp add: window_example)
  have "extractRelevantPortion marked_document ''data retention''
        = take 6000 (join elision (make_chunks ?lines (sort [0, 1, 2, 3, 4, 5, 6, 7, 8, 9, 10])))"
    unfolding extract_long [OF long] lines Let_def rel idx by simp
  also have "\<dots> = take 6000 (join [newline] [''A.1'', [], [], [], [], [], [], [], [], [], []])"
    unfolding sort_example chunks_example by simp
  also have "\<dots> = ''A.1'' @ replicate 10 newline"
    by (simp add: eval_nat_numeral)
  finally show ?thesis .
qed

text \<open>
  C3 as stated fails: the document \<open>marked_document\<close> is longer than 8000 characters,
  no keyword of the query occurs in any of its lines, and the extractor returns the 13
  characters around the marker line, not the first 6000 characters.
\<close>

theorem marker_only_counterexample:
  "length marked_document > 8000 \<and> no_keyword_hit marked_document ''data retention'' \<and>
   extractRelevantPortion marked_document ''data retention'' \<noteq> take 6000 marked_document"
proof -
  have "length marked_document > 8000"
    by (simp add: marked_document_def filler_length)
  moreover have "no_keyword_hit marked_document ''data retention''"
  proof -
    have "list_all (\<lambda>w. \<not> includes_str (toLowerCase ''A.1'') w) [''data'', ''retention'']" by code_simp
    moreover have "list_all (\<lambda>w. \<not> includes_str (toLowerCase []) w) [''data'', ''retention'']" by code_simp
    ultimately show ?thesis
      using filler_no_keyword
      by (simp add: no_keyword_hit_def keywords_example marked_lines eval_nat_numeral)
  qed
  moreover have "extractRelevantPortion marked_document ''data retention'' \<noteq> take 6000 marked_document"
  proof
    assume "extractRelevantPortion marked_document ''data retention'' = take 6000 marked_document"
    then have "length (''A.1'' @ replicate 10 newline) = length (take 6000 marked_document)"
      by (simp only: marked_extract)
    then show False by (simp add: marked_document_def filler_length)
  qed
  ultimately show ?thesis by simp
qed

text \<open>The amended C3 at the document without a marker.\<close>

theorem no_hit_first_6000_witness:
  "length filler > 8000 \<and> no_keyword_hit filler ''data retention'' \<and> no_section_marker filler \<and>
   extractRelevantPortion filler ''data retention'' = take 6000 filler"
proof -
  have a: "length filler > 8000" by (simp add: filler_length)
  have b: "no_keyword_hit filler ''data retention''"
    using filler_no_keyword by (simp add: no_keyword_hit_def keywords_example filler_lines)
  have c: "no_section_marker filler"
    by (simp add: no_section_marker_def filler_lines filler_no_marker)
  show ?thesis using a b c no_hit_first_6000 [OF a b c] by simp
qed

text \<open>C4 at a short document.\<close>

theorem small_document_unchanged_witness:
  "length ''Section 4.2: incidents are reported within 24 hours'' \<le> 8000 \<and>
   extractRelevantPortion ''Section 4.2: incidents are reported within 24 hours'' ''incident reporting window''
     = ''Section 4.2: incidents are reported within 24 hours''"
proof -
  have h: "length ''Section 4.2: incidents are reported within 24 hours'' \<le> 8000" by simp
  show ?thesis using h small_document_unchanged [OF h] by simp
qed

section \<open>Retrieval only reads\<close>

lemma only_reads_ret: "only_reads (ret x)"
  by (simp add: only_reads_def ret_def)

lemma only_reads_throw: "only_reads (throw e)"
  by (simp add: only_reads_def throw_def)

lemma only_reads_lift: "only_reads (lift r)"
  by (simp add: only_reads_def lift_def)

lemma only_reads_call: "retrieval_event ev \<Longrightarrow> only_reads (call ev r)"
  by (simp add: only_reads_def call_def)

lemma only_reads_bind:
  assumes "only_reads m" and "\<And>x. only_reads (f x)"
  shows "only_reads (bind m f)"
proof -
  have "history (snd (bind m f w)) = history w \<and>
        (\<exists>evs. calls (snd (bind m f w)) = calls w @ evs \<and> list_all retrieval_event evs)" for w
  proof (cases "m w")
    case (Pair r w1)
    from assms(1) Pair obtain evs1 where m: "history w1 = history w" "calls w1 = calls w @ evs1"
      "list_all retrieval_event evs1"
      unfolding only_reads_def by (metis snd_conv)
    show ?thesis
    proof (cases r)
      case (Inl e)
      with Pair m show ?thesis by (auto simp: bind_def)
    next
      case (Inr x)
      from assms(2) [of x] obtain evs2 where f: "history (snd (f x w1)) = history w1"
        "calls (snd (f x w1)) = calls w1 @ evs2" "list_all retrieval_event evs2"
        unfolding only_reads_def by blast
      have "bind m f w = f x w1" using Pair Inr by (simp add: bind_def)
      with m f show ?thesis by (auto intro: exI [of _ "evs1 @ evs2"])
    qed
  qed
  then show ?thesis unfolding only_reads_def by blast
qed

lemma only_reads_catch:
  assumes "only_reads m" and "\<And>e. only_reads (h e)"
  shows "only_reads (catch m h)"
proof -
  have "history (snd (catch m h w)) = history w \<and>
        (\<exists>evs. calls (snd (catch m h w)) = calls w @ evs \<and> list_all retrieval_event evs)" for w
  proof (cases "m w")
    case (Pair r w1)
    from assms(1) Pair obtain evs1 where m: "history w1 = history w" "calls w1 = calls w @ evs1"
      "list_all retrieval_event evs1"
      unfolding only_reads_def by (metis snd_conv)
    show ?thesis
    proof (cases r)
      case (Inr x)
      with Pair m show ?thesis by (auto simp: catch_def)
    next
      case (Inl e)
      from assms(2) [of e] obtain evs2 where f: "history (snd (h e w1)) = history w1"
        "calls (snd (h e w1)) = calls w1 @ evs2" "list_all retrieval_event evs2"
        unfolding only_reads_def by blast
      have "catch m h w = h e w1" using Pair Inl by (simp add: catch_def)
      with m f show ?thesis by (auto intro: exI [of _ "evs1 @ evs2"])
    qed
  qed
  then show ?thesis unfolding only_reads_def by blast
qed

lemmas only_reads_intros =
  only_reads_ret only_reads_throw only_reads_lift only_reads_bind only_reads_catch

lemma only_reads_getDocumentContent: "only_reads (getDocumentContent env docId)"
  unfolding getDocumentContent_def
  by (intro only_reads_intros only_reads_call; simp add: retrieval_event_def only_reads_intros only_reads_call split: option.split)

lemma start_read_events: "list_all retrieval_event (snd (start_read env docId))"
  by (simp add: start_read_def retrieval_event_def split: option.split)

lemma resume_read_events: "list_all retrieval_event (snd (resume_read env st))"
  by (cases st) (simp_all add: retrieval_event_def split: option.split sum.split)

lemma run_callbacks_events:
  "\<exists>more. snd (run_callbacks env order pending seen results step evs) = evs @ more \<and>
          list_all retrieval_event more"
proof (induction env order pending seen results step evs rule: run_callbacks.induct)
  case (1 env order pending seen results step evs)
  show ?case
  proof (cases "pending = []")
    case True
    then show ?thesis by (simp add: run_callbacks.simps)
  next
    case False
    let ?k = "order step mod length pending"
    let ?p = "pending ! ?k"
    let ?st = "fst (resume_read env (snd (snd ?p)))"
    let ?new = "snd (resume_read env (snd (snd ?p)))"
    have new: "list_all retrieval_event ?new" by (rule resume_read_events)
    show ?thesis
    proof (cases ?st)
      case (Settled fetched)
      from "1.IH"(3) [OF False refl refl refl refl refl Settled]
      obtain more where "snd (run_callbacks env order (take ?k pending @ drop (Suc ?k) pending)
          (snd (after_content (fst (snd ?p)) fetched seen))
          (results[fst ?p := fst (after_content (fst (snd ?p)) fetched seen)])
          (Suc step) (evs @ ?new)) = (evs @ ?new) @ more" "list_all retrieval_event more"
        by blast
      with new False Settled show ?thesis
        by (subst run_callbacks.simps) (auto simp: Let_def intro!: exI [of _ "?new @ more"])
    next
      case (AwaitBucket d)
      from "1.IH"(1) [OF False refl refl refl refl refl AwaitBucket]
      obtain more where "snd (run_callbacks env order (pending[?k := (fst ?p, fst (snd ?p), ?st)])
          seen results (Suc step) (evs @ ?new)) = (evs @ ?new) @ more" "list_all retrieval_event more"
        by blast
      with new False AwaitBucket show ?thesis
        by (subst run_callbacks.simps) (auto simp: Let_def intro!: exI [of _ "?new @ more"])
    next
      case (AwaitNamespace d)
      from "1.IH"(2) [OF False refl refl refl refl refl AwaitNamespace]
      obtain more where "snd (run_callbacks env order (pending[?k := (fst ?p, fst (snd ?p), ?st)])
          seen results (Suc step) (evs @ ?new)) = (evs @ ?new) @ more" "list_all retrieval_event more"
        by blast
      with new False AwaitNamespace show ?thesis
        by (subst run_callbacks.simps) (auto simp: Let_def intro!: exI [of _ "?new @ more"])
    qed
  qed
qed

lemma only_reads_promise_all: "only_reads (promise_all env matches)"
proof -
  let ?started = "map (\<lambda>(i, m). (i, m, fst (start_read env (match_id m)))) (enumerate 0 matches)"
  let ?issued = "concat (map (\<lambda>m. snd (start_read env (match_id m))) matches)"
  have issued: "list_all retrieval_event ?issued"
    using start_read_events by (auto simp: list_all_iff)
  from run_callbacks_events [of env "completion_order env" ?started "[]" "replicate (length matches) None" 0 ?issued]
  obtain more where "snd (run_callbacks env (completion_order env) ?started [] (replicate (length matches) None) 0 ?issued)
      = ?issued @ more" "list_all retrieval_event more" by blast
  with issued show ?thesis
    by (auto simp: only_reads_def promise_all_def Let_def intro!: exI [of _ "?issued @ more"])
qed

lemma only_reads_vector_search: "only_reads (vector_search env queryEmbedding)"
proof (cases "DOCS_VECTORDB env")
  case (Queryable query)
  have "only_reads (case queryEmbedding of None \<Rightarrow> throw (type_error ''0'')
                    | Some v \<Rightarrow> call (VectorQuery v 3) (query v 3))"
    by (cases queryEmbedding) (simp_all add: only_reads_throw only_reads_call retrieval_event_def)
  moreover have "only_reads (case searchResults of None \<Rightarrow> throw (type_error ''map'')
          | Some matches \<Rightarrow> bind (promise_all env matches)
                             (\<lambda>relevantContext. ret (filter_Boolean relevantContext)))"
    for searchResults
    by (cases searchResults)
       (auto intro!: only_reads_throw only_reads_bind only_reads_promise_all only_reads_ret)
  ultimately show ?thesis
    unfolding vector_search_def Queryable vectordb.case
    by (intro only_reads_catch only_reads_bind only_reads_ret)
qed (simp_all add: vector_search_def only_reads_ret)

lemma only_reads_score_document: "only_reads (score_document env kv qWords name)"
  unfolding score_document_def Let_def
  by (intro only_reads_bind only_reads_call)
     (auto simp: retrieval_event_def split: option.split
           intro!: only_reads_ret only_reads_bind only_reads_lift only_reads_throw
                   only_reads_getDocumentContent)

lemma only_reads_scan_keys: "only_reads (scan_keys env kv qWords names)"
proof (induction names)
  case Nil
  show ?case by (simp add: only_reads_ret)
next
  case (Cons name names)
  show ?case
    unfolding scan_keys.simps
    by (intro only_reads_bind Cons.IH)
       (auto intro!: only_reads_ret only_reads_catch only_reads_score_document)
qed

lemma only_reads_lexical_fallback: "only_reads (lexical_fallback env message)"
  unfolding lexical_fallback_def Let_def
  by (auto split: option.split simp: retrieval_event_def
           intro!: only_reads_ret only_reads_bind only_reads_call only_reads_scan_keys)

lemma only_reads_retrieve: "only_reads (retrieve env queryEmbedding message)"
  unfolding retrieve_def
  by (auto intro!: only_reads_bind only_reads_vector_search only_reads_lexical_fallback only_reads_ret)

section \<open>The outcomes of a request\<close>

lemma build_context_citations:
  "build_context message ds ctx = Inr ctx' \<Longrightarrow> \<exists>cs. citations ds = Inr cs \<and> length cs = length ds"
proof (induction ds arbitrary: ctx)
  case Nil
  then show ?case by simp
next
  case (Cons d ds)
  then show ?case by (cases "metadata d") (auto simp: Let_def split: sum.splits)
qed

lemma answer_no_context:
  "build_context message validResults [] = Inl e \<Longrightarrow>
   answer env message hist validResults w = (Inl e, w)"
  by (simp add: answer_def bind_def lift_def)

lemma answer_generation_throws:
  assumes "build_context message validResults [] = Inr documentContext"
    and "aiMessages = [\<lparr>role = System, content = system_message validResults documentContext,
                         timestamp = Date_now env 0\<rparr>]
                      @ slice_last 2 hist
                      @ [\<lparr>role = User, content = message, timestamp = Date_now env 1\<rparr>]"
    and "AI_generate env aiMessages = Inl e"
  shows "answer env message hist validResults w = (Inl e, w\<lparr>calls := calls w @ [Generate aiMessages]\<rparr>)"
  using assms by (simp add: answer_def bind_def lift_def call_def Let_def)

lemma answer_stream_throws:
  assumes "build_context message validResults [] = Inr documentContext"
    and "aiMessages = [\<lparr>role = System, content = system_message validResults documentContext,
                         timestamp = Date_now env 0\<rparr>]
                      @ slice_last 2 hist
                      @ [\<lparr>role = User, content = message, timestamp = Date_now env 1\<rparr>]"
    and "AI_generate env aiMessages = Inr aiResponse"
    and "response_text aiResponse = Inl e"
  shows "answer env message hist validResults w = (Inl e, w\<lparr>calls := calls w @ [Generate aiMessages]\<rparr>)"
  using assms by (simp add: answer_def bind_def lift_def call_def Let_def)

lemma answer_put_throws:
  assumes "build_context message validResults [] = Inr documentContext"
    and "aiMessages = [\<lparr>role = System, content = system_message validResults documentContext,
                         timestamp = Date_now env 0\<rparr>]
                      @ slice_last 2 hist
                      @ [\<lparr>role = User, content = message, timestamp = Date_now env 1\<rparr>]"
    and "AI_generate env aiMessages = Inr aiResponse"
    and "response_text aiResponse = Inr responseText"
    and "trimmedHistory = slice_last 10 (hist @
           [\<lparr>role = User, content = message, timestamp = Date_now env 1\<rparr>,
            \<lparr>role = Assistant, content = responseText, timestamp = Date_now env 2\<rparr>])"
    and "storage_put_error env = Some e"
  shows "answer env message hist validResults w =
           (Inl e, w\<lparr>calls := calls w @ [Generate aiMessages, StoragePut trimmedHistory]\<rparr>)"
  using assms by (simp add: answer_def bind_def lift_def call_def storage_put_def Let_def)

lemma answer_succeeds:
  assumes "build_context message validResults [] = Inr documentContext"
    and "aiMessages = [\<lparr>role = System, content = system_message validResults documentContext,
                         timestamp = Date_now env 0\<rparr>]
                      @ slice_last 2 hist
                      @ [\<lparr>role = User, content = message, timestamp = Date_now env 1\<rparr>]"
    and "AI_generate env aiMessages = Inr aiResponse"
    and "response_text aiResponse = Inr responseText"
    and "trimmedHistory = slice_last 10 (hist @
           [\<lparr>role = User, content = message, timestamp = Date_now env 1\<rparr>,
            \<lparr>role = Assistant, content = responseText, timestamp = Date_now env 2\<rparr>])"
    and "storage_put_error env = None"
  shows "\<exists>cited. citations validResults = Inr cited \<and>
           answer env message hist validResults w =
             (Inr \<lparr>status = 200,
                   body = ChatJson responseText cited
                            \<lparr>documentsFound = length validResults,
                             contextLength = length documentContext,
                             promptLength = length (system_message validResults documentContext)\<rparr>\<rparr>,
              w\<lparr>history := Some trimmedHistory,
                calls := calls w @ [Generate aiMessages, StoragePut trimmedHistory]\<rparr>)"
proof -
  from build_context_citations [OF assms(1)] obtain cited where "citations validResults = Inr cited"
    by blast
  with assms show ?thesis
    by (simp add: answer_def bind_def lift_def call_def storage_put_def ret_def Let_def)
qed

lemmas shorthand_defs =
  system_prompt_message_def user_message_def assistant_message_def prompt_def trimmed_def
  chat_response_def

lemma answer_outcome:
  "(\<exists>e. build_context message validResults [] = Inl e \<and>
        answer env message hist validResults w = (Inl e, w))
   \<or> (\<exists>ctx ms. build_context message validResults [] = Inr ctx \<and>
         ms = prompt env message hist validResults ctx \<and>
         ((\<exists>e. (AI_generate env ms = Inl e \<or>
                 (\<exists>a. AI_generate env ms = Inr a \<and> response_text a = Inl e)) \<and>
               answer env message hist validResults w
                 = (Inl e, w\<lparr>calls := calls w @ [Generate ms]\<rparr>))
          \<or> (\<exists>a t. AI_generate env ms = Inr a \<and> response_text a = Inr t \<and>
                ((\<exists>e. storage_put_error env = Some e \<and>
                      answer env message hist validResults w
                        = (Inl e, w\<lparr>calls := calls w @ [Generate ms,
                                     StoragePut (trimmed env message hist t)]\<rparr>))
                 \<or> (storage_put_error env = None \<and>
                     (\<exists>cited. citations validResults = Inr cited \<and>
                        answer env message hist validResults w
                          = (Inr (chat_response t cited validResults ctx),
                             w\<lparr>history := Some (trimmed env message hist t),
                               calls := calls w @ [Generate ms,
                                 StoragePut (trimmed env message hist t)]\<rparr>)))))))"
proof (cases "build_context message validResults []")
  case (Inl e)
  then show ?thesis by (simp add: answer_no_context)
next
  case ctx: (Inr ctx)
  let ?ms = "prompt env message hist validResults ctx"
  have ms: "?ms = [\<lparr>role = System, content = system_message validResults ctx,
                     timestamp = Date_now env 0\<rparr>]
                  @ slice_last 2 hist
                  @ [\<lparr>role = User, content = message, timestamp = Date_now env 1\<rparr>]"
    by (simp add: shorthand_defs)
  show ?thesis
  proof (cases "AI_generate env ?ms")
    case (Inl e)
    from answer_generation_throws [OF ctx ms Inl] ctx Inl show ?thesis by auto
  next
    case gen: (Inr a)
    show ?thesis
    proof (cases "response_text a")
      case (Inl e)
      from answer_stream_throws [OF ctx ms gen Inl] ctx gen Inl show ?thesis by auto
    next
      case rtext: (Inr t)
      have tr: "trimmed env message hist t = slice_last 10 (hist @
           [\<lparr>role = User, content = message, timestamp = Date_now env 1\<rparr>,
            \<lparr>role = Assistant, content = t, timestamp = Date_now env 2\<rparr>])"
        by (simp add: shorthand_defs)
      show ?thesis
      proof (cases "storage_put_error env")
        case (Some e)
        from answer_put_throws [OF ctx ms gen rtext tr Some] ctx gen rtext Some show ?thesis by auto
      next
        case None
        from answer_succeeds [OF ctx ms gen rtext tr None, of w] ctx gen rtext None show ?thesis
          by (auto simp: chat_response_def)
      qed
    qed
  qed
qed

lemma retrieval_event_quiet: "retrieval_event ev \<Longrightarrow> quiet_event ev"
  by (cases ev) (simp_all add: retrieval_event_def quiet_event_def)

lemma retrieve_frame:
  assumes "retrieve env queryEmbedding message w0 = (r, w1)"
  shows "history w1 = history w0 \<and>
         (\<exists>evs. calls w1 = calls w0 @ evs \<and> list_all retrieval_event evs)"
  using only_reads_retrieve [of env queryEmbedding message] assms
  unfolding only_reads_def by (metis snd_conv)

lemma process_outcome:
  "(\<exists>e w'. process env message w = (Inl e, w') \<and> history w' = history w \<and>
        (\<exists>evs. calls w' = calls w @ evs \<and> list_all quiet_event evs))
   \<or> (\<exists>queryEmbedding validResults w1.
         storage_get_error env = None \<and> AI_embed env message = Inr queryEmbedding \<and>
         retrieve env queryEmbedding message (w\<lparr>calls := calls w @ [StorageGet, Embed message]\<rparr>)
           = (Inr validResults, w1) \<and>
         history w1 = history w \<and>
         (\<exists>evs. calls w1 = calls w @ evs \<and> list_all quiet_event evs) \<and>
         process env message w = answer env message (stored_messages w) validResults w1)"
proof (cases "storage_get_error env")
  case (Some e)
  then have "process env message w = (Inl e, w\<lparr>calls := calls w @ [StorageGet]\<rparr>)"
    by (simp add: process_def bind_def storage_get_def)
  then show ?thesis by (auto simp: quiet_event_def)
next
  case None
  show ?thesis
  proof (cases "AI_embed env message")
    case (Inl e)
    with None have "process env message w = (Inl e, w\<lparr>calls := calls w @ [StorageGet, Embed message]\<rparr>)"
      by (simp add: process_def bind_def storage_get_def call_def Let_def)
    then show ?thesis by (auto simp: quiet_event_def)
  next
    case (Inr queryEmbedding)
    let ?w0 = "w\<lparr>calls := calls w @ [StorageGet, Embed message]\<rparr>"
    obtain r w1 where ret: "retrieve env queryEmbedding message ?w0 = (r, w1)"
      by (cases "retrieve env queryEmbedding message ?w0") auto
    from retrieve_frame [OF ret] obtain evs where
      frame: "history w1 = history w" "calls w1 = calls w @ [StorageGet, Embed message] @ evs"
      "list_all retrieval_event evs" by auto
    from frame(3) have "list_all quiet_event evs"
      by (auto simp: list_all_iff intro: retrieval_event_quiet)
    then have quiet: "list_all quiet_event ([StorageGet, Embed message] @ evs)"
      by (simp add: quiet_event_def)
    have proc: "process env message w =
                (case r of Inl e \<Rightarrow> (Inl e, w1)
                         | Inr validResults \<Rightarrow> answer env message (stored_messages w) validResults w1)"
      using None Inr ret
      by (simp add: process_def bind_def storage_get_def call_def Let_def stored_messages_def split: sum.split)
    show ?thesis
    proof (cases r)
      case (Inl e)
      with proc frame quiet show ?thesis by auto
    next
      case results: (Inr validResults)
      with proc frame quiet None Inr ret show ?thesis by auto
    qed
  qed
qed

lemma fetch_process:
  "message \<noteq> [] \<Longrightarrow>
   fetch env (Some message) w =
     (case process env message w of
        (Inl e, w') \<Rightarrow> (Inr (failure_response e), w')
      | (Inr response, w') \<Rightarrow> (Inr response, w'))"
  by (simp add: fetch_def catch_def ret_def split: prod.split sum.split)

lemma fetch_no_message: "fetch env None w = (Inr bad_request, w)"
  by (simp add: fetch_def ret_def)

lemma fetch_empty_message: "fetch env (Some []) w = (Inr bad_request, w)"
  by (simp add: fetch_def ret_def)

lemma slice_last_length: "length (slice_last n xs) \<le> n"
  by (simp add: slice_last_def)

lemma slice_last_two:
  "2 \<le> n \<Longrightarrow> slice_last 2 (slice_last n (xs @ [u, a])) = [u, a]"
  by (simp add: slice_last_def)

lemma fetch_outcome:
  assumes "message \<noteq> []"
  obtains
    (failed) e w' evs where
      "fetch env (Some message) w = (Inr (failure_response e), w')"
      "process env message w = (Inl e, w')"
      "history w' = history w"
      "calls w' = calls w @ evs"
      "list_all quiet_event evs \<or>
       (\<exists>quiet ms. list_all quiet_event quiet \<and>
          (\<exists>validResults ctx queryEmbedding w1.
             AI_embed env message = Inr queryEmbedding \<and>
             retrieve env queryEmbedding message
               (w\<lparr>calls := calls w @ [StorageGet, Embed message]\<rparr>) = (Inr validResults, w1) \<and>
             build_context message validResults [] = Inr ctx \<and>
             ms = prompt env message (stored_messages w) validResults ctx) \<and>
          ((evs = quiet @ [Generate ms] \<and>
            (AI_generate env ms = Inl e \<or>
             (\<exists>a. AI_generate env ms = Inr a \<and> response_text a = Inl e))) \<or>
           (\<exists>a t h. AI_generate env ms = Inr a \<and> response_text a = Inr t \<and>
              storage_put_error env = Some e \<and>
              evs = quiet @ [Generate ms, StoragePut h])))"
  | (answered) validResults ctx ms a t cited quiet queryEmbedding w1 w' where
      "storage_get_error env = None" "AI_embed env message = Inr queryEmbedding"
      "retrieve env queryEmbedding message
         (w\<lparr>calls := calls w @ [StorageGet, Embed message]\<rparr>) = (Inr validResults, w1)"
      "build_context message validResults [] = Inr ctx"
      "ms = prompt env message (stored_messages w) validResults ctx"
      "AI_generate env ms = Inr a" "response_text a = Inr t"
      "storage_put_error env = None" "citations validResults = Inr cited"
      "list_all quiet_event quiet"
      "fetch env (Some message) w = (Inr (chat_response t cited validResults ctx), w')"
      "history w' = Some (trimmed env message (stored_messages w) t)"
      "calls w' = calls w @ quiet @
         [Generate ms, StoragePut (trimmed env message (stored_messages w) t)]"
proof -
  note fp = fetch_process [OF assms, of env w]
  from process_outcome [of env message w] show ?thesis
  proof (elim disjE exE conjE)
    fix e w' evs
    assume "process env message w = (Inl e, w')" "history w' = history w"
      "calls w' = calls w @ evs" "list_all quiet_event evs"
    with fp show ?thesis by (intro failed [of e w' evs]) auto
  next
    fix queryEmbedding validResults w1 evs
    assume sg: "storage_get_error env = None" and em: "AI_embed env message = Inr queryEmbedding"
      and re: "retrieve env queryEmbedding message
                 (w\<lparr>calls := calls w @ [StorageGet, Embed message]\<rparr>) = (Inr validResults, w1)"
      and h1: "history w1 = history w" and c1: "calls w1 = calls w @ evs"
      and q1: "list_all quiet_event evs"
      and pr: "process env message w = answer env message (stored_messages w) validResults w1"
    from answer_outcome [of message validResults env "stored_messages w" w1] show ?thesis
    proof (elim disjE exE conjE)
      fix e
      assume "build_context message validResults [] = Inl e"
        "answer env message (stored_messages w) validResults w1 = (Inl e, w1)"
      with fp pr h1 c1 q1 show ?thesis by (intro failed [of e w1 evs]) auto
    next
      fix ctx ms e
      assume "build_context message validResults [] = Inr ctx"
        "ms = prompt env message (stored_messages w) validResults ctx"
        "AI_generate env ms = Inl e"
        "answer env message (stored_messages w) validResults w1
           = (Inl e, w1\<lparr>calls := calls w1 @ [Generate ms]\<rparr>)"
      with fp pr h1 c1 q1 em re show ?thesis
        by (intro failed [of e "w1\<lparr>calls := calls w1 @ [Generate ms]\<rparr>" "evs @ [Generate ms]"])
           (auto intro!: exI [of _ evs])
    next
      fix ctx ms e a
      assume "build_context message validResults [] = Inr ctx"
        "ms = prompt env message (stored_messages w) validResults ctx"
        "AI_generate env ms = Inr a" "response_text a = Inl e"
        "answer env message (stored_messages w) validResults w1
           = (Inl e, w1\<lparr>calls := calls w1 @ [Generate ms]\<rparr>)"
      with fp pr h1 c1 q1 em re show ?thesis
        by (intro failed [of e "w1\<lparr>calls := calls w1 @ [Generate ms]\<rparr>" "evs @ [Generate ms]"])
           (auto intro!: exI [of _ evs])
    next
      fix ctx ms a t e
      assume "build_context message validResults [] = Inr ctx"
        "ms = prompt env message (stored_messages w) validResults ctx"
        "AI_generate env ms = Inr a" "response_text a = Inr t"
        "storage_put_error env = Some e"
        "answer env message (stored_messages w) validResults w1
           = (Inl e, w1\<lparr>calls := calls w1 @ [Generate ms,
                StoragePut (trimmed env message (stored_messages w) t)]\<rparr>)"
      with fp pr h1 c1 q1 em re show ?thesis
        by (intro failed [of e "w1\<lparr>calls := calls w1 @ [Generate ms,
                StoragePut (trimmed env message (stored_messages w) t)]\<rparr>"
              "evs @ [Generate ms, StoragePut (trimmed env message (stored_messages w) t)]"])
           (auto intro!: exI [of _ evs])
    next
      fix ctx ms a t cited
      assume "build_context message validResults [] = Inr ctx"
        "ms = prompt env message (stored_messages w) validResults ctx"
        "AI_generate env ms = Inr a" "response_text a = Inr t"
        "storage_put_error env = None" "citations validResults = Inr cited"
        "answer env message (stored_messages w) validResults w1
           = (Inr (chat_response t cited validResults ctx),
              w1\<lparr>history := Some (trimmed env message (stored_messages w) t),
                 calls := calls w1 @ [Generate ms,
                   StoragePut (trimmed env message (stored_messages w) t)]\<rparr>)"
      with fp pr h1 c1 q1 sg em re show ?thesis
        by (intro answered [of queryEmbedding validResults w1 ctx ms a t cited evs]) auto
    qed
  qed
qed


subsection \<open>Exceptions that leave the body\<close>



lemma build_context_blocks:
  "build_context m ds acc = Inr ctx \<Longrightarrow>
   ctx = acc @ concat (map (\<lambda>d. document_block (the (metadata d))
                                  (extractRelevantPortion (doc_content d) m)) ds)"
proof (induction ds arbitrary: acc)
  case Nil
  then show ?case by simp
next
  case (Cons x ds)
  show ?case
  proof (cases "metadata x")
    case None
    with Cons.prems show ?thesis by (simp add: Let_def)
  next
    case (Some md)
    with Cons.prems have "build_context m ds
        (acc @ document_block md (extractRelevantPortion (doc_content x) m)) = Inr ctx"
      by (simp add: Let_def)
    from Cons.IH [OF this] Some show ?thesis by simp
  qed
qed

lemma prompt_unfold:
  "prompt env m hist validResults ctx =
     [\<lparr>role = System, content = system_message validResults ctx, timestamp = Date_now env 0\<rparr>]
     @ slice_last 2 hist
     @ [\<lparr>role = User, content = m, timestamp = Date_now env 1\<rparr>]"
  by (simp add: shorthand_defs)


section \<open>Properties of the chat agent\<close>

text \<open>
  C10: a request without the parameter \<^verbatim>\<open>message\<close> is answered with status 400 at once.
  The state returned is the state given, so the stored history is neither read nor
  written and no call is made, whatever the environment.
\<close>

theorem missing_message_rejected:
  "fetch env None w = (Inr bad_request, w) \<and> status bad_request = 400 \<and>
   body bad_request = PlainText ''Message parameter is required''"
  by (simp add: fetch_def ret_def bad_request_def)

text \<open>
  C8: the similarity search step never raises. Without a binding, or with a binding that
  has no callable \<^verbatim>\<open>query\<close>, it yields no result and makes no call; when the query throws
  or answers without matches it yields no result; and every query it issues has
  \<^verbatim>\<open>topK\<close> 3.
\<close>

theorem vector_search_never_raises:
  "(\<exists>results. fst (vector_search env queryEmbedding w) = Inr results) \<and>
   (DOCS_VECTORDB env = Missing \<or> DOCS_VECTORDB env = NotQueryable \<longrightarrow>
      vector_search env queryEmbedding w = (Inr [], w)) \<and>
   (\<forall>query v e. DOCS_VECTORDB env = Queryable query \<and> queryEmbedding = Some v \<and> query v 3 = Inl e \<longrightarrow>
      vector_search env queryEmbedding w = (Inr [], w\<lparr>calls := calls w @ [VectorQuery v 3]\<rparr>)) \<and>
   (\<forall>query v. DOCS_VECTORDB env = Queryable query \<and> queryEmbedding = Some v \<and> query v 3 = Inr None \<longrightarrow>
      vector_search env queryEmbedding w = (Inr [], w\<lparr>calls := calls w @ [VectorQuery v 3]\<rparr>)) \<and>
   (\<forall>v topK. VectorQuery v topK \<in> set (calls (snd (vector_search env queryEmbedding w))) \<longrightarrow>
      VectorQuery v topK \<in> set (calls w) \<or> topK = 3)"
proof (intro conjI allI impI)
  show "\<exists>results. fst (vector_search env queryEmbedding w) = Inr results"
    by (cases "DOCS_VECTORDB env")
       (auto simp: vector_search_def catch_def ret_def split: prod.split sum.split)
next
  assume "DOCS_VECTORDB env = Missing \<or> DOCS_VECTORDB env = NotQueryable"
  then show "vector_search env queryEmbedding w = (Inr [], w)"
    by (auto simp: vector_search_def ret_def)
next
  fix query v e
  assume "DOCS_VECTORDB env = Queryable query \<and> queryEmbedding = Some v \<and> query v 3 = Inl e"
  then show "vector_search env queryEmbedding w = (Inr [], w\<lparr>calls := calls w @ [VectorQuery v 3]\<rparr>)"
    by (simp add: vector_search_def catch_def bind_def call_def ret_def)
next
  fix query v
  assume "DOCS_VECTORDB env = Queryable query \<and> queryEmbedding = Some v \<and> query v 3 = Inr None"
  then show "vector_search env queryEmbedding w = (Inr [], w\<lparr>calls := calls w @ [VectorQuery v 3]\<rparr>)"
    by (simp add: vector_search_def catch_def bind_def call_def ret_def throw_def)
next
  fix v topK
  assume new: "VectorQuery v topK \<in> set (calls (snd (vector_search env queryEmbedding w)))"
  from only_reads_vector_search [of env queryEmbedding] obtain evs where
    "calls (snd (vector_search env queryEmbedding w)) = calls w @ evs" "list_all retrieval_event evs"
    unfolding only_reads_def by blast
  with new show "VectorQuery v topK \<in> set (calls w) \<or> topK = 3"
    by (auto simp: list_all_iff retrieval_event_def)
qed

text \<open>
C8 with no callable query, and with a query that throws.
\<close>

theorem vector_search_never_raises_witness:
  "vector_search unbound_index_env (Some [1, 0]) fresh = (Inr [], fresh) \<and>
   vector_search broken_index_env (Some [1, 0]) fresh
     = (Inr [], fresh\<lparr>calls := calls fresh @ [VectorQuery [1, 0] 3]\<rparr>) \<and>
   VectorQuery [1, 0] 3 \<in> set (calls (snd (vector_search broken_index_env (Some [1, 0]) fresh)))"
proof -
  have unbound: "DOCS_VECTORDB unbound_index_env = NotQueryable"
    by (simp add: unbound_index_env_def)
  have broken: "DOCS_VECTORDB broken_index_env = Queryable failing_query"
    by (simp add: broken_index_env_def)
  have fails: "failing_query [1, 0] 3 = Inl (JsError ''index unavailable'')"
    by (simp add: failing_query_def)
  note at_unbound = vector_search_never_raises [of unbound_index_env "Some [1, 0]" fresh]
  note at_broken = vector_search_never_raises [of broken_index_env "Some [1, 0]" fresh]
  from at_unbound have "DOCS_VECTORDB unbound_index_env = Missing \<or> DOCS_VECTORDB unbound_index_env = NotQueryable
      \<longrightarrow> vector_search unbound_index_env (Some [1, 0]) fresh = (Inr [], fresh)"
    by (rule conjunct2 [THEN conjunct1])
  with unbound have first: "vector_search unbound_index_env (Some [1, 0]) fresh = (Inr [], fresh)"
    by blast
  from at_broken have "\<forall>query v e. DOCS_VECTORDB broken_index_env = Queryable query \<and>
        Some [1, 0] = Some v \<and> query v 3 = Inl e \<longrightarrow>
      vector_search broken_index_env (Some [1, 0]) fresh
        = (Inr [], fresh\<lparr>calls := calls fresh @ [VectorQuery v 3]\<rparr>)"
    by (rule conjunct2 [THEN conjunct2, THEN conjunct1])
  from this [rule_format, of failing_query "[1, 0]" "JsError ''index unavailable''"] broken fails
  have second: "vector_search broken_index_env (Some [1, 0]) fresh
          = (Inr [], fresh\<lparr>calls := calls fresh @ [VectorQuery [1, 0] 3]\<rparr>)"
    by blast
  from second have called: "VectorQuery [1, 0] 3
      \<in> set (calls (snd (vector_search broken_index_env (Some [1, 0]) fresh)))"
    by simp
  from at_broken have "\<forall>v topK. VectorQuery v topK
        \<in> set (calls (snd (vector_search broken_index_env (Some [1, 0]) fresh)))
      \<longrightarrow> VectorQuery v topK \<in> set (calls fresh) \<or> topK = 3"
    by (rule conjunct2 [THEN conjunct2, THEN conjunct2, THEN conjunct2])
  from this [rule_format, OF called] have third: "VectorQuery [1, 0] 3 \<in> set (calls fresh) \<or> (3::nat) = 3" .
  from first second third called show ?thesis by blast
qed

lemma fetch_status_200:
  assumes "fetch env message w = (Inr response, w')" and "status response = 200"
  obtains m validResults ctx t cited where
    "message = Some m" "m \<noteq> []"
    "build_context m validResults [] = Inr ctx"
    "response = chat_response t cited validResults ctx"
    "history w' = Some (trimmed env m (stored_messages w) t)"
proof (cases "message = None \<or> message = Some []")
  case True
  then have "fetch env message w = (Inr bad_request, w)"
    by (auto simp: fetch_no_message fetch_empty_message)
  with assms have False by (auto simp: bad_request_def)
  then show ?thesis ..
next
  case False
  then obtain m where m: "message = Some m" "m \<noteq> []" by auto
  from m(2) show ?thesis
  proof (cases rule: fetch_outcome [where env = env and w = w])
    case (failed e w'' evs)
    with assms m have False by (auto simp: failure_response_def)
    then show ?thesis ..
  next
    case (answered validResults ctx ms a t cited quiet queryEmbedding w1 w'')
    with assms m show ?thesis by (intro that [of m validResults ctx t cited]) auto
  qed
qed

lemma trimmed_bounded: "length (trimmed env m hist t) \<le> 10"
  by (simp add: trimmed_def slice_last_length)

lemma fetch_keeps_bound:
  assumes "length (stored_messages w) \<le> 10"
  shows "length (stored_messages (snd (fetch env message w))) \<le> 10"
proof (cases "message = None \<or> message = Some []")
  case True
  then have "fetch env message w = (Inr bad_request, w)"
    by (auto simp: fetch_no_message fetch_empty_message)
  with assms show ?thesis by simp
next
  case False
  then obtain m where m: "message = Some m" "m \<noteq> []" by auto
  from m(2) show ?thesis
  proof (cases rule: fetch_outcome [where env = env and w = w])
    case (failed e w' evs)
    with assms m show ?thesis by (simp add: stored_messages_def)
  next
    case (answered validResults ctx ms a t cited quiet queryEmbedding w1 w')
    with m show ?thesis by (simp add: stored_messages_def trimmed_bounded)
  qed
qed

lemma session_keeps_bound:
  "length (stored_messages w) \<le> 10 \<Longrightarrow> length (stored_messages (session requests w)) \<le> 10"
proof (induction requests arbitrary: w)
  case Nil
  then show ?case by simp
next
  case (Cons request requests)
  obtain env message where "request = (env, message)" by (cases request)
  with Cons show ?case by (simp add: fetch_keeps_bound)
qed

text \<open>
  C7: after any sequence of requests to a new session the stored history has at most 10
  messages; and a request answered with status 200 appends the user message and the
  assistant message, in this order, drops the oldest messages beyond 10, and leaves that
  pair as the last two stored messages.
\<close>

theorem history_bounded_and_recent:
  "length (stored_messages (session requests fresh)) \<le> 10 \<and>
   (\<forall>response w'. fetch env message (session requests fresh) = (Inr response, w') \<and> status response = 200 \<longrightarrow>
      (\<exists>m t cited dbg appended.
         message = Some m \<and> body response = ChatJson t cited dbg \<and>
         appended = stored_messages (session requests fresh)
                    @ [\<lparr>role = User, content = m, timestamp = Date_now env 1\<rparr>,
                       \<lparr>role = Assistant, content = t, timestamp = Date_now env 2\<rparr>] \<and>
         history w' = Some (drop (length appended - 10) appended) \<and>
         length (stored_messages w') \<le> 10 \<and>
         slice_last 2 (stored_messages w')
           = [\<lparr>role = User, content = m, timestamp = Date_now env 1\<rparr>,
              \<lparr>role = Assistant, content = t, timestamp = Date_now env 2\<rparr>]))"
proof (intro conjI allI impI)
  show "length (stored_messages (session requests fresh)) \<le> 10"
    by (rule session_keeps_bound) (simp add: stored_messages_def fresh_def)
next
  fix response w'
  assume "fetch env message (session requests fresh) = (Inr response, w') \<and> status response = 200"
  then have f: "fetch env message (session requests fresh) = (Inr response, w')"
    and s: "status response = 200" by simp_all
  from f s show "\<exists>m t cited dbg appended.
         message = Some m \<and> body response = ChatJson t cited dbg \<and>
         appended = stored_messages (session requests fresh)
                    @ [\<lparr>role = User, content = m, timestamp = Date_now env 1\<rparr>,
                       \<lparr>role = Assistant, content = t, timestamp = Date_now env 2\<rparr>] \<and>
         history w' = Some (drop (length appended - 10) appended) \<and>
         length (stored_messages w') \<le> 10 \<and>
         slice_last 2 (stored_messages w')
           = [\<lparr>role = User, content = m, timestamp = Date_now env 1\<rparr>,
              \<lparr>role = Assistant, content = t, timestamp = Date_now env 2\<rparr>]"
  proof (cases rule: fetch_status_200)
    case (1 m validResults ctx t cited)
    then show ?thesis
      by (simp add: chat_response_def stored_messages_def trimmed_def slice_last_def
          user_message_def assistant_message_def)
  qed
qed

text \<open>
C7 for a successful turn after a failed one.
\<close>

theorem history_bounded_and_recent_witness:
  "fst (fetch fallback_env (Some ''vacation'') (session [(overloaded_env, Some ''hello'')] fresh))
     = Inr (chat_response refusal [] [] []) \<and>
   status (chat_response refusal [] [] []) = 200 \<and>
   length (stored_messages (session [(overloaded_env, Some ''hello'')] fresh)) \<le> 10 \<and>
   slice_last 2 (stored_messages
       (snd (fetch fallback_env (Some ''vacation'') (session [(overloaded_env, Some ''hello'')] fresh))))
     = first_turn"
proof -
  let ?w = "session [(overloaded_env, Some ''hello'')] fresh"
  obtain response w' where f: "fetch fallback_env (Some ''vacation'') ?w = (response, w')"
    by (cases "fetch fallback_env (Some ''vacation'') ?w")
  have r: "fst (fetch fallback_env (Some ''vacation'') ?w) = Inr (chat_response refusal [] [] [])"
    by code_simp
  have s: "status (chat_response refusal [] [] []) = 200" by (simp add: chat_response_def)
  have clock: "Date_now fallback_env (Suc 0) = 1001" "Date_now fallback_env 2 = 1002" by code_simp+
  from f r have f': "fetch fallback_env (Some ''vacation'') ?w = (Inr (chat_response refusal [] [] []), w')"
    by simp
  from history_bounded_and_recent [of "[(overloaded_env, Some ''hello'')]" fallback_env "Some ''vacation''"]
    f' s
  have "length (stored_messages ?w) \<le> 10 \<and> slice_last 2 (stored_messages w') = first_turn"
    by (auto simp: chat_response_def first_turn_def clock)
  with f r s show ?thesis by simp
qed

text \<open>
  C5: when retrieval ends with no candidate and the embedding, the generation and the
  storage do not throw, the response has status 200, its citation list is empty, and the
  system message sent to the model is \<open>SYSTEM_PROMPT\<close> followed by the notice that no
  policy documents are available.
\<close>

theorem no_documents_response:
  assumes "message \<noteq> []"
    and "storage_get_error env = None"
    and "AI_embed env message = Inr queryEmbedding"
    and "retrieve env queryEmbedding message (w\<lparr>calls := calls w @ [StorageGet, Embed message]\<rparr>)
           = (Inr [], w1)"
    and "aiMessages =
           [\<lparr>role = System, content = SYSTEM_PROMPT @ no_documents_notice, timestamp = Date_now env 0\<rparr>]
           @ slice_last 2 (stored_messages w)
           @ [\<lparr>role = User, content = message, timestamp = Date_now env 1\<rparr>]"
    and "AI_generate env aiMessages = Inr aiResponse"
    and "response_text aiResponse = Inr responseText"
    and "storage_put_error env = None"
  shows "\<exists>w'. fetch env (Some message) w =
           (Inr \<lparr>status = 200,
                 body = ChatJson responseText []
                          \<lparr>documentsFound = 0, contextLength = 0,
                           promptLength = length (SYSTEM_PROMPT @ no_documents_notice)\<rparr>\<rparr>, w') \<and>
           (\<exists>h. calls w' = calls w1 @ [Generate aiMessages, StoragePut h])"
  using assms
  by (simp add: fetch_def catch_def process_def answer_def bind_def storage_get_def call_def
      lift_def ret_def storage_put_def system_message_def stored_messages_def Let_def)

text \<open>
C5 for a query that shares no word with the stored document.
\<close>

theorem no_documents_response_witness:
  "retrieve fallback_env (Some [1, 0]) ''vacation''
     (fresh\<lparr>calls := calls fresh @ [StorageGet, Embed ''vacation'']\<rparr>) = (Inr [], after_retrieval) \<and>
   (\<exists>w'. fetch fallback_env (Some ''vacation'') fresh =
           (Inr \<lparr>status = 200,
                 body = ChatJson refusal []
                          \<lparr>documentsFound = 0, contextLength = 0,
                           promptLength = length (SYSTEM_PROMPT @ no_documents_notice)\<rparr>\<rparr>, w') \<and>
         (\<exists>h. calls w' = calls after_retrieval @ [Generate no_documents_prompt, StoragePut h]))"
proof -
  have a: "''vacation'' \<noteq> []" by simp
  have b: "storage_get_error fallback_env = None" by code_simp
  have c: "AI_embed fallback_env ''vacation'' = Inr (Some [1, 0])" by code_simp
  have d: "retrieve fallback_env (Some [1, 0]) ''vacation''
             (fresh\<lparr>calls := calls fresh @ [StorageGet, Embed ''vacation'']\<rparr>) = (Inr [], after_retrieval)"
    by code_simp
  have e: "no_documents_prompt =
           [\<lparr>role = System, content = SYSTEM_PROMPT @ no_documents_notice,
             timestamp = Date_now fallback_env 0\<rparr>]
           @ slice_last 2 (stored_messages fresh)
           @ [\<lparr>role = User, content = ''vacation'', timestamp = Date_now fallback_env 1\<rparr>]"
    by code_simp
  have f: "AI_generate fallback_env no_documents_prompt = Inr (PlainString refusal)" by code_simp
  have g: "response_text (PlainString refusal) = Inr refusal" by simp
  have h: "storage_put_error fallback_env = None" by code_simp
  from no_documents_response [OF a b c d e f g h] d show ?thesis by simp
qed


text \<open>
  The states \<open>one_turn\<close> and \<open>two_turns\<close> are those a session reaches after its first
  and its second request.
\<close>

lemma turns_reached:
  "history (session [(fallback_env, Some ''vacation'')] fresh) = history one_turn \<and>
   history (session [(fallback_env, Some ''hello'')] one_turn) = history two_turns"
  by code_simp





text \<open>
  C9: the sequence sent to the generation model is one system message, then the last two
  stored messages, then the user message of this request, and nothing else. The system
  message is \<open>SYSTEM_PROMPT\<close> followed by the notice when retrieval gave no candidate,
  and otherwise by the heading, the blocks of the candidates retrieval gave, in their
  order, and the reminder.
\<close>

theorem generation_message_order:
  assumes "Generate aiMessages \<in> set (calls (snd (fetch env message w)))"
    and "Generate aiMessages \<notin> set (calls w)"
  shows "\<exists>m queryEmbedding validResults w1 documentContext.
           message = Some m \<and> AI_embed env m = Inr queryEmbedding \<and>
           retrieve env queryEmbedding m (w\<lparr>calls := calls w @ [StorageGet, Embed m]\<rparr>)
             = (Inr validResults, w1) \<and>
           documentContext = concat (map (\<lambda>d. document_block (the (metadata d))
                                              (extractRelevantPortion (doc_content d) m)) validResults) \<and>
           aiMessages =
             [\<lparr>role = System,
               content =
                 (if validResults = [] then SYSTEM_PROMPT @ no_documents_notice
                  else SYSTEM_PROMPT @ [newline, newline]
                       @ ''Here are the policy documents you must reference:'' @ [newline, newline]
                       @ documentContext @ [newline, newline]
                       @ ''Remember: ONLY use information from the documents above. Quote exact text. Use actual section numbers from the documents.''),
               timestamp = Date_now env 0\<rparr>]
             @ slice_last 2 (stored_messages w)
             @ [\<lparr>role = User, content = m, timestamp = Date_now env 1\<rparr>]"
proof (cases "message = None \<or> message = Some []")
  case True
  then have "fetch env message w = (Inr bad_request, w)"
    by (auto simp: fetch_no_message fetch_empty_message)
  with assms show ?thesis by simp
next
  case False
  then obtain m where m: "message = Some m" "m \<noteq> []" by auto
  have quiet_gen: "Generate ms \<notin> set evs" if "list_all quiet_event evs" for ms evs
    using that by (auto simp: list_all_iff quiet_event_def)
  have shape: "\<exists>validResults ctx queryEmbedding w1.
                 AI_embed env m = Inr queryEmbedding \<and>
                 retrieve env queryEmbedding m (w\<lparr>calls := calls w @ [StorageGet, Embed m]\<rparr>)
                   = (Inr validResults, w1) \<and>
                 build_context m validResults [] = Inr ctx \<and>
                 aiMessages = prompt env m (stored_messages w) validResults ctx"
    using m(2)
  proof (cases rule: fetch_outcome [where env = env and w = w])
    case (failed e w' evs)
    with assms m have new: "Generate aiMessages \<in> set evs" by simp
    with failed(5) quiet_gen obtain quiet ms validResults ctx queryEmbedding w1 where
      q: "list_all quiet_event quiet"
      and r: "AI_embed env m = Inr queryEmbedding"
        "retrieve env queryEmbedding m (w\<lparr>calls := calls w @ [StorageGet, Embed m]\<rparr>)
           = (Inr validResults, w1)"
      and b: "build_context m validResults [] = Inr ctx"
      and ms: "ms = prompt env m (stored_messages w) validResults ctx"
      and evs: "evs = quiet @ [Generate ms] \<or> (\<exists>h. evs = quiet @ [Generate ms, StoragePut h])"
      by blast
    from new evs quiet_gen [OF q] have "aiMessages = ms" by auto
    with r b ms show ?thesis by blast
  next
    case (answered validResults ctx ms a t cited quiet queryEmbedding w1 w')
    with assms m have "Generate aiMessages \<in> set (quiet @ [Generate ms])" by simp
    with quiet_gen [OF answered(10)] have "aiMessages = ms" by auto
    with answered(2-5) show ?thesis by blast
  qed
  then obtain validResults ctx queryEmbedding w1 where
    r: "AI_embed env m = Inr queryEmbedding"
      "retrieve env queryEmbedding m (w\<lparr>calls := calls w @ [StorageGet, Embed m]\<rparr>)
         = (Inr validResults, w1)"
    and b: "build_context m validResults [] = Inr ctx"
    and p: "aiMessages = prompt env m (stored_messages w) validResults ctx"
    by blast
  from build_context_blocks [OF b]
  have ctx: "ctx = concat (map (\<lambda>d. document_block (the (metadata d))
                                  (extractRelevantPortion (doc_content d) m)) validResults)"
    by simp
  have "aiMessages =
          [\<lparr>role = System,
            content =
              (if validResults = [] then SYSTEM_PROMPT @ no_documents_notice
               else SYSTEM_PROMPT @ [newline, newline]
                    @ ''Here are the policy documents you must reference:'' @ [newline, newline]
                    @ ctx @ [newline, newline]
                    @ ''Remember: ONLY use information from the documents above. Quote exact text. Use actual section numbers from the documents.''),
            timestamp = Date_now env 0\<rparr>]
          @ slice_last 2 (stored_messages w)
          @ [\<lparr>role = User, content = m, timestamp = Date_now env 1\<rparr>]"
    unfolding p prompt_unfold by (simp add: system_message_def)
  with m r ctx show ?thesis by blast
qed

text \<open>
  C9 at the third request of a session, which finds the policy: the two messages of the
  second turn are sent, those of the first are not.
\<close>

theorem generation_message_order_witness:
  "Generate documents_prompt \<in> set (calls (snd (fetch fallback_env (Some ''incidents'') two_turns))) \<and>
   Generate documents_prompt \<notin> set (calls two_turns) \<and>
   stored_messages two_turns = first_turn @ second_turn \<and>
   fst (retrieve fallback_env (Some [1, 0]) ''incidents''
          (two_turns\<lparr>calls := calls two_turns @ [StorageGet, Embed ''incidents'']\<rparr>)) = Inr [found_policy] \<and>
   (\<exists>validResults w1 documentContext.
      retrieve fallback_env (Some [1, 0]) ''incidents''
        (two_turns\<lparr>calls := calls two_turns @ [StorageGet, Embed ''incidents'']\<rparr>) = (Inr validResults, w1) \<and>
      documentContext = concat (map (\<lambda>d. document_block (the (metadata d))
                                         (extractRelevantPortion (doc_content d) ''incidents'')) validResults) \<and>
      documents_prompt =
        [\<lparr>role = System,
          content =
            (if validResults = [] then SYSTEM_PROMPT @ no_documents_notice
             else SYSTEM_PROMPT @ [newline, newline]
                  @ ''Here are the policy documents you must reference:'' @ [newline, newline]
                  @ documentContext @ [newline, newline]
                  @ ''Remember: ONLY use information from the documents above. Quote exact text. Use actual section numbers from the documents.''),
          timestamp = Date_now fallback_env 0\<rparr>]
        @ slice_last 2 (stored_messages two_turns)
        @ [\<lparr>role = User, content = ''incidents'', timestamp = Date_now fallback_env 1\<rparr>])"
proof -
  have called: "Generate documents_prompt
      \<in> set (calls (snd (fetch fallback_env (Some ''incidents'') two_turns)))"
    by code_simp
  have new: "Generate documents_prompt \<notin> set (calls two_turns)" by code_simp
  have stored: "stored_messages two_turns = first_turn @ second_turn" by code_simp
  have found: "fst (retrieve fallback_env (Some [1, 0]) ''incidents''
          (two_turns\<lparr>calls := calls two_turns @ [StorageGet, Embed ''incidents'']\<rparr>)) = Inr [found_policy]"
    by code_simp
  have embedded: "AI_embed fallback_env ''incidents'' = Inr (Some [1, 0])" by code_simp
  from generation_message_order [OF called new]
  obtain m queryEmbedding validResults w1 documentContext where
    m: "Some ''incidents'' = Some m"
    and e: "AI_embed fallback_env m = Inr queryEmbedding"
    and r: "retrieve fallback_env queryEmbedding m
              (two_turns\<lparr>calls := calls two_turns @ [StorageGet, Embed m]\<rparr>) = (Inr validResults, w1)"
    and c: "documentContext = concat (map (\<lambda>d. document_block (the (metadata d))
                                         (extractRelevantPortion (doc_content d) m)) validResults)"
    and p: "documents_prompt =
        [\<lparr>role = System,
          content =
            (if validResults = [] then SYSTEM_PROMPT @ no_documents_notice
             else SYSTEM_PROMPT @ [newline, newline]
                  @ ''Here are the policy documents you must reference:'' @ [newline, newline]
                  @ documentContext @ [newline, newline]
                  @ ''Remember: ONLY use information from the documents above. Quote exact text. Use actual section numbers from the documents.''),
          timestamp = Date_now fallback_env 0\<rparr>]
        @ slice_last 2 (stored_messages two_turns)
        @ [\<lparr>role = User, content = m, timestamp = Date_now fallback_env 1\<rparr>]"
    by blast
  from m have m': "m = ''incidents''" by simp
  from e embedded have q: "queryEmbedding = Some [1, 0]" unfolding m' by simp
  note r' = r [unfolded m' q] and c' = c [unfolded m'] and p' = p [unfolded m']
  have "\<exists>validResults w1 documentContext.
      retrieve fallback_env (Some [1, 0]) ''incidents''
        (two_turns\<lparr>calls := calls two_turns @ [StorageGet, Embed ''incidents'']\<rparr>) = (Inr validResults, w1) \<and>
      documentContext = concat (map (\<lambda>d. document_block (the (metadata d))
                                         (extractRelevantPortion (doc_content d) ''incidents'')) validResults) \<and>
      documents_prompt =
        [\<lparr>role = System,
          content =
            (if validResults = [] then SYSTEM_PROMPT @ no_documents_notice
             else SYSTEM_PROMPT @ [newline, newline]
                  @ ''Here are the policy documents you must reference:'' @ [newline, newline]
                  @ documentContext @ [newline, newline]
                  @ ''Remember: ONLY use information from the documents above. Quote exact text. Use actual section numbers from the documents.''),
          timestamp = Date_now fallback_env 0\<rparr>]
        @ slice_last 2 (stored_messages two_turns)
        @ [\<lparr>role = User, content = ''incidents'', timestamp = Date_now fallback_env 1\<rparr>]"
    by (rule exI [of _ validResults], rule exI [of _ w1], rule exI [of _ documentContext])
       (rule conjI [OF r' conjI [OF c' p']])
  with called new stored found show ?thesis by (intro conjI)
qed

section \<open>Duplicates and query words in the lexical fallback\<close>

text \<open>
  The similarity path keeps at most one result for each prefix of 200 characters.
\<close>

lemma filter_Boolean_append: "filter_Boolean (xs @ ys) = filter_Boolean xs @ filter_Boolean ys"
  by (simp add: filter_Boolean_def)

lemma filter_Boolean_Cons_None: "filter_Boolean (None # xs) = filter_Boolean xs"
  by (simp add: filter_Boolean_def)

lemma filter_Boolean_Cons_Some: "filter_Boolean (Some x # xs) = x # filter_Boolean xs"
  by (simp add: filter_Boolean_def)

lemma filter_Boolean_update:
  assumes "i < length results" and "results ! i = None"
  shows "filter_Boolean results = filter_Boolean (take i results) @ filter_Boolean (drop (Suc i) results)"
    and "filter_Boolean (results[i := Some c])
           = filter_Boolean (take i results) @ c # filter_Boolean (drop (Suc i) results)"
proof -
  from assms have "results = take i results @ None # drop (Suc i) results"
    using id_take_nth_drop [of i results] by simp
  then have "filter_Boolean results = filter_Boolean (take i results @ None # drop (Suc i) results)"
    by simp
  then show "filter_Boolean results = filter_Boolean (take i results) @ filter_Boolean (drop (Suc i) results)"
    by (simp add: filter_Boolean_append filter_Boolean_Cons_None)
  from assms(1) have "results[i := Some c] = take i results @ Some c # drop (Suc i) results"
    by (rule upd_conv_take_nth_drop)
  then show "filter_Boolean (results[i := Some c])
           = filter_Boolean (take i results) @ c # filter_Boolean (drop (Suc i) results)"
    by (simp add: filter_Boolean_append filter_Boolean_Cons_Some)
qed

lemma tidy_settled:
  assumes t: "tidy pending seen results" and k: "k < length pending"
  shows "tidy (take k pending @ drop (Suc k) pending)
           (snd (after_content (fst (snd (pending ! k))) fetched seen))
           (results[fst (pending ! k) := fst (after_content (fst (snd (pending ! k))) fetched seen)])"
proof -
  let ?i = "fst (pending ! k)"
  let ?m = "fst (snd (pending ! k))"
  let ?rest = "take k pending @ drop (Suc k) pending"
  have whole: "pending = take k pending @ pending ! k # drop (Suc k) pending"
    using k by (rule id_take_nth_drop)
  from t have d: "distinct (map fst pending)" by (simp add: tidy_def)
  then have "distinct (map fst (take k pending @ pending ! k # drop (Suc k) pending))"
    using whole by simp
  then have rest_d: "distinct (map fst ?rest)" and away: "?i \<notin> fst ` set ?rest"
    by auto
  have sub: "set ?rest \<subseteq> set pending"
    by (auto dest: in_set_takeD in_set_dropD)
  from t k have i: "?i < length results" "results ! ?i = None"
    by (auto simp: tidy_def)
  from t have seen: "\<forall>c \<in> set (filter_Boolean results). take 200 (doc_content c) \<in> set seen"
    and dist: "distinct (map (\<lambda>c. take 200 (doc_content c)) (filter_Boolean results))"
    by (simp_all add: tidy_def)
  have others: "\<forall>p \<in> set ?rest. fst p < length (results[?i := r]) \<and> results[?i := r] ! fst p = None" for r
  proof
    fix p assume p: "p \<in> set ?rest"
    then have "fst p \<in> fst ` set ?rest" by (rule imageI)
    with away have "fst p \<noteq> ?i" by metis
    moreover from p sub t have "fst p < length results \<and> results ! fst p = None"
      by (auto simp: tidy_def)
    ultimately show "fst p < length (results[?i := r]) \<and> results[?i := r] ! fst p = None" by simp
  qed
  show ?thesis
  proof (cases "fst (after_content ?m fetched seen)")
    case None
    then have same: "snd (after_content ?m fetched seen) = seen"
      by (auto simp: after_content_def Let_def split: if_splits)
    have "results[?i := None] = results" using i by (metis list_update_id)
    moreover from sub t have "\<forall>p \<in> set ?rest. fst p < length results \<and> results ! fst p = None"
      by (auto simp: tidy_def)
    ultimately show ?thesis
      using None same rest_d seen dist by (simp add: tidy_def)
  next
    case (Some c)
    then have hash: "take 200 (doc_content c) \<notin> set seen"
      and seen': "snd (after_content ?m fetched seen) = take 200 (doc_content c) # seen"
      by (auto simp: after_content_def Let_def split: if_splits)
    note fb = filter_Boolean_update(1) [OF i] filter_Boolean_update(2) [OF i, of c]
    from seen hash dist have "distinct (map (\<lambda>c. take 200 (doc_content c)) (filter_Boolean (results[?i := Some c])))"
      unfolding fb by auto
    moreover from seen have "\<forall>c' \<in> set (filter_Boolean (results[?i := Some c])).
        take 200 (doc_content c') \<in> set (take 200 (doc_content c) # seen)"
      unfolding fb by auto
    moreover from others have "\<forall>p \<in> set ?rest. fst p < length (results[?i := Some c]) \<and>
        results[?i := Some c] ! fst p = None" by blast
    ultimately show ?thesis
      using Some seen' rest_d by (simp add: tidy_def)
  qed
qed

lemma tidy_waiting:
  assumes t: "tidy pending seen results" and k: "k < length pending"
  shows "tidy (pending[k := (fst (pending ! k), m, st)]) seen results"
proof -
  let ?x = "(fst (pending ! k), m, st)"
  have same: "map fst (pending[k := ?x]) = map fst pending"
    using k by (simp add: map_update list_update_same_conv)
  have "fst p < length results \<and> results ! fst p = None" if "p \<in> set (pending[k := ?x])" for p
  proof -
    from that have "fst p \<in> set (map fst (pending[k := ?x]))" by simp
    then have "fst p \<in> set (map fst pending)" by (simp only: same)
    then obtain q where "q \<in> set pending" "fst q = fst p" by auto
    with t show ?thesis by (auto simp: tidy_def)
  qed
  with t same show ?thesis by (simp add: tidy_def)
qed

lemma run_callbacks_distinct:
  "tidy pending seen results \<Longrightarrow>
   distinct (map (\<lambda>c. take 200 (doc_content c))
     (filter_Boolean (fst (run_callbacks env order pending seen results step evs))))"
proof (induction env order pending seen results step evs rule: run_callbacks.induct)
  case (1 env order pending seen results step evs)
  show ?case
  proof (cases "pending = []")
    case True
    with "1.prems" show ?thesis by (simp add: run_callbacks.simps tidy_def)
  next
    case False
    let ?k = "order step mod length pending"
    let ?p = "pending ! ?k"
    let ?st = "fst (resume_read env (snd (snd ?p)))"
    from False have k: "?k < length pending" by simp
    show ?thesis
    proof (cases ?st)
      case (Settled fetched)
      from "1.IH"(3) [OF False refl refl refl refl refl Settled tidy_settled [OF "1.prems" k]]
        False Settled show ?thesis
        by (subst run_callbacks.simps) (simp add: Let_def)
    next
      case (AwaitBucket d)
      from "1.IH"(1) [OF False refl refl refl refl refl AwaitBucket tidy_waiting [OF "1.prems" k]]
        False AwaitBucket show ?thesis
        by (subst run_callbacks.simps) (simp add: Let_def)
    next
      case (AwaitNamespace d)
      from "1.IH"(2) [OF False refl refl refl refl refl AwaitNamespace tidy_waiting [OF "1.prems" k]]
        False AwaitNamespace show ?thesis
        by (subst run_callbacks.simps) (simp add: Let_def)
    qed
  qed
qed

lemma promise_all_distinct:
  assumes "promise_all env matches w = (Inr results, w')"
  shows "distinct (map (\<lambda>c. take 200 (doc_content c)) (filter_Boolean results))"
proof -
  let ?started = "map (\<lambda>(i, m). (i, m, fst (start_read env (match_id m)))) (enumerate 0 matches)"
  have "map fst ?started = map fst (enumerate 0 matches)"
    by (simp add: case_prod_unfold comp_def)
  also have "\<dots> = [0..<length matches]" by (simp add: map_fst_enumerate)
  finally have fsts: "map fst ?started = [0..<length matches]" .
  have none: "filter_Boolean (replicate n (None :: SearchResult option)) = []" for n
    by (simp add: filter_Boolean_def)
  have inside: "fst p < length matches" if "p \<in> set ?started" for p
  proof -
    from that have "fst p \<in> set (map fst ?started)" by (simp del: map_map)
    then show ?thesis by (simp only: fsts) simp
  qed
  have d: "distinct (map fst ?started)" by (simp only: fsts) simp
  have "tidy ?started [] (replicate (length matches) None)"
    unfolding tidy_def using d inside by (simp add: none)
  from run_callbacks_distinct [OF this] assms show ?thesis
    by (auto simp: promise_all_def Let_def)
qed

lemma similarity_results_distinct:
  assumes "vector_search env queryEmbedding w = (Inr validResults, w')"
  shows "distinct (map (\<lambda>c. take 200 (doc_content c)) validResults)"
proof (cases "DOCS_VECTORDB env")
  case (Queryable query)
  show ?thesis
  proof (cases "\<exists>v matches. queryEmbedding = Some v \<and> query v 3 = Inr (Some matches)")
    case True
    then obtain v matches where q: "queryEmbedding = Some v" "query v 3 = Inr (Some matches)"
      by blast
    let ?w0 = "w\<lparr>calls := calls w @ [VectorQuery v 3]\<rparr>"
    obtain rs w1 where d: "promise_all env matches ?w0 = (Inr rs, w1)"
      by (simp add: promise_all_def Let_def)
    with assms Queryable q have "validResults = filter_Boolean rs"
      by (simp add: vector_search_def catch_def bind_def call_def ret_def)
    with promise_all_distinct [OF d] show ?thesis by simp
  next
    case False
    with assms Queryable have "validResults = []"
      by (cases queryEmbedding; cases "query (the queryEmbedding) 3")
         (auto simp: vector_search_def catch_def bind_def call_def ret_def throw_def
               split: option.splits)
    then show ?thesis by simp
  qed
qed (insert assms, auto simp: vector_search_def ret_def)

text \<open>
  The read of one document, taken by itself, is the three stages the callbacks of
  \<^verbatim>\<open>Promise.all\<close> go through. Which of two matches with the same text is kept depends on
  the order in which their reads settle: when the read of the second match settles first,
  the copy ranked first by the index is the one dropped.
\<close>

lemma getDocumentContent_steps:
  "getDocumentContent env docId w =
     (let first = start_read env docId;
          second = resume_read env (fst first);
          third = resume_read env (fst second)
      in (Inr (case fst third of Settled fetched \<Rightarrow> fetched | _ \<Rightarrow> None),
          w\<lparr>calls := calls w @ snd first @ snd second @ snd third\<rparr>))"
  by (cases "COMPLIANCE_DOCS env"; cases "COMPLIANCE_KV env")
     (auto simp: getDocumentContent_def start_read_def catch_def bind_def ret_def call_def Let_def
           split: option.splits sum.splits)

lemma completion_order_decides:
  "vector_search indexed_env (Some [1, 0]) fresh
     = (Inr [\<lparr>documentId = ''a'', doc_content = privacy_policy, score = 1,
               metadata = Some policy_metadata\<rparr>],
        \<lparr>history = None,
         calls = [VectorQuery [1, 0] 3, KvGet ''doc:a:content'', KvGet ''doc:b:content'']\<rparr>) \<and>
   vector_search late_first_env (Some [1, 0]) fresh
     = (Inr [\<lparr>documentId = ''b'', doc_content = privacy_policy, score = 1 / 2,
               metadata = Some policy_metadata\<rparr>],
        \<lparr>history = None,
         calls = [VectorQuery [1, 0] 3, KvGet ''doc:a:content'', KvGet ''doc:b:content'']\<rparr>)"
  by code_simp

text \<open>
  C1 fails on the fallback path, which has no such filter: with the same text stored under
  two identifiers and no index, both copies are retrieved for the query \<open>incidents\<close>.
\<close>

theorem fallback_keeps_duplicates:
  "fst (retrieve duplicate_env (Some [1, 0]) ''incidents'' fresh)
     = Inr [\<lparr>documentId = ''a'', doc_content = privacy_policy, score = 1,
              metadata = Some policy_metadata\<rparr>,
            \<lparr>documentId = ''b'', doc_content = privacy_policy, score = 1,
              metadata = Some policy_metadata\<rparr>]"
  by code_simp

text \<open>
  What the fallback does with the scores: entries are pushed with a positive score only,
  the sort is descending and stable and keeps the entries, and at most two are returned.
\<close>

lemma sort_by_score_descending:
  "sorted (map (\<lambda>entry. - score entry) (sort_by_score scored))"
  by (simp add: sort_by_score_def)

lemma sort_by_score_stable:
  "filter (\<lambda>entry. score entry = k) (sort_by_score scored) = filter (\<lambda>entry. score entry = k) scored"
  using sort_key_stable [of "\<lambda>entry. - score entry" "- k" scored]
  by (simp add: sort_by_score_def)

lemma sort_by_score_entries:
  "set (sort_by_score scored) = set scored \<and> length (sort_by_score scored) = length scored"
  by (simp add: sort_by_score_def)

lemma score_document_positive:
  assumes "score_document env kv qWords name w = (Inr (Some entry), w')"
  shows "score entry > 0"
proof -
  obtain metadataStr where a: "kv_get kv name = Inr metadataStr"
    using assms by (cases "kv_get kv name") (auto simp: score_document_def bind_def call_def)
  show ?thesis
    using assms a
    by (auto simp: score_document_def bind_def call_def lift_def ret_def throw_def Let_def
             split: if_splits sum.splits prod.splits option.splits)
qed

lemma scan_keys_positive:
  "scan_keys env kv qWords names w = (Inr scored, w') \<Longrightarrow> \<forall>entry \<in> set scored. score entry > 0"
proof (induction names arbitrary: w scored w')
  case Nil
  then show ?case by (simp add: ret_def)
next
  case (Cons name names)
  let ?first = "if includes_str name '':content'' then ret None
                else catch (score_document env kv qWords name) (\<lambda>err. ret None)"
  obtain r1 w1 where first: "?first w = (r1, w1)" by (cases "?first w")
  from Cons.prems first obtain pushed where p: "r1 = Inr pushed"
    by (cases r1) (auto simp: bind_def)
  obtain r2 w2 where rest: "scan_keys env kv qWords names w1 = (r2, w2)"
    by (cases "scan_keys env kv qWords names w1")
  from Cons.prems first p rest obtain others where
    o: "r2 = Inr others" "scored = (case pushed of None \<Rightarrow> others | Some entry \<Rightarrow> entry # others)"
    by (cases r2) (auto simp: bind_def ret_def)
  from rest o Cons.IH have ih: "\<forall>entry \<in> set others. score entry > 0" by blast
  have "score entry > 0" if "pushed = Some entry" for entry
  proof -
    from first p that have "includes_str name '':content'' = False"
      by (auto simp: ret_def split: if_splits)
    with first p that obtain w0 where "score_document env kv qWords name w = (Inr (Some entry), w0)"
      by (cases "score_document env kv qWords name w")
         (auto simp: catch_def ret_def split: sum.splits)
    then show ?thesis by (rule score_document_positive)
  qed
  with ih o show ?case by (cases pushed) auto
qed

lemma lexical_fallback_shape:
  assumes "lexical_fallback env message w = (Inr validResults, w')"
  shows "length validResults \<le> 2 \<and> (\<forall>entry \<in> set validResults. score entry > 0) \<and>
         sorted (map (\<lambda>entry. - score entry) validResults)"
proof (cases "COMPLIANCE_KV env")
  case None
  with assms show ?thesis by (simp add: lexical_fallback_def ret_def)
next
  case (Some kv)
  let ?qWords = "filter (\<lambda>w. w \<noteq> []) (split_ws (toLowerCase message))"
  obtain listed where l: "kv_list kv ''doc:'' = Inr listed"
    using assms Some by (cases "kv_list kv ''doc:''") (auto simp: lexical_fallback_def bind_def call_def)
  let ?keys = "case listed of None \<Rightarrow> [] | Some names \<Rightarrow> names"
  let ?w0 = "w\<lparr>calls := calls w @ [KvList ''doc:'']\<rparr>"
  obtain r w1 where s: "scan_keys env kv ?qWords ?keys ?w0 = (r, w1)"
    by (cases "scan_keys env kv ?qWords ?keys ?w0")
  from assms Some l s obtain scored where
    sc: "r = Inr scored" "validResults = take 2 (sort_by_score scored)"
    by (cases r) (auto simp: lexical_fallback_def bind_def call_def ret_def Let_def)
  from s sc(1) have "\<forall>entry \<in> set scored. score entry > 0" by (auto dest: scan_keys_positive)
  then have pos: "\<forall>entry \<in> set (take 2 (sort_by_score scored)). score entry > 0"
    by (auto dest!: in_set_takeD simp: sort_by_score_entries)
  have "sorted (map (\<lambda>entry. - score entry) (take 2 (sort_by_score scored)))"
    using sort_by_score_descending [of scored] by (simp add: take_map [symmetric])
  with pos sc show ?thesis by simp
qed

text \<open>
  C2 fails for a query word with a character of the pattern syntax: the word
  \<open>reported.\<close> does not occur in the document, yet as a pattern it matches
  \<open>reported\<close> followed by any character, and the document is returned with score 1.
\<close>

theorem query_word_read_as_pattern:
  "fst (lexical_fallback fallback_env ''reported.'' fresh)
     = Inr [\<lparr>documentId = ''d1'', doc_content = privacy_policy, score = 1,
              metadata = Some policy_metadata\<rparr>] \<and>
   \<not> includes_str (toLowerCase privacy_policy) ''reported.''"
  by code_simp

end
